theory Spec2Isabelle
  imports Complex_Main
begin

section \<open>Values of the tables\<close>

text \<open>
  The program (\<^verbatim>\<open>src/redispatch/electricity_redispatch.py\<close>) works on the tables of
  a power network: one table of static attributes per component type, indexed by the
  component's name, and per attribute a table of time series with one column per
  component and one row per snapshot.

  A numeric cell is a float. Finite values are modelled as exact reals (rounding and
  overflow are not modelled, the two signed zeros are one value); what is kept of the
  floating-point arithmetic is what the program relies on: a division by zero raises
  nothing, \<open>x / 0\<close> is an infinity for \<open>x \<noteq> 0\<close>, \<open>0 / 0\<close> is NaN, and NaN is
  what a missing label yields when two tables are aligned.
\<close>

datatype fl = Fin real | PInf | NInf | NaN

fun fl_uminus :: "fl \<Rightarrow> fl" where
  "fl_uminus (Fin a) = Fin (- a)"
| "fl_uminus PInf = NInf"
| "fl_uminus NInf = PInf"
| "fl_uminus NaN = NaN"

fun fl_mul :: "fl \<Rightarrow> fl \<Rightarrow> fl" where
  "fl_mul (Fin a) (Fin b) = Fin (a * b)"
| "fl_mul (Fin a) PInf = (if a = 0 then NaN else if 0 < a then PInf else NInf)"
| "fl_mul (Fin a) NInf = (if a = 0 then NaN else if 0 < a then NInf else PInf)"
| "fl_mul PInf (Fin b) = (if b = 0 then NaN else if 0 < b then PInf else NInf)"
| "fl_mul NInf (Fin b) = (if b = 0 then NaN else if 0 < b then NInf else PInf)"
| "fl_mul PInf PInf = PInf"
| "fl_mul PInf NInf = NInf"
| "fl_mul NInf PInf = NInf"
| "fl_mul NInf NInf = PInf"
| "fl_mul NaN y = NaN"
| "fl_mul x NaN = NaN"

fun fl_sub :: "fl \<Rightarrow> fl \<Rightarrow> fl" where
  "fl_sub (Fin a) (Fin b) = Fin (a - b)"
| "fl_sub (Fin a) PInf = NInf"
| "fl_sub (Fin a) NInf = PInf"
| "fl_sub PInf (Fin b) = PInf"
| "fl_sub NInf (Fin b) = NInf"
| "fl_sub PInf PInf = NaN"
| "fl_sub PInf NInf = PInf"
| "fl_sub NInf PInf = NInf"
| "fl_sub NInf NInf = NaN"
| "fl_sub NaN y = NaN"
| "fl_sub x NaN = NaN"

fun fl_div :: "fl \<Rightarrow> fl \<Rightarrow> fl" where
  "fl_div (Fin a) (Fin b) =
     (if b = 0 then (if a = 0 then NaN else if 0 < a then PInf else NInf)
      else Fin (a / b))"
| "fl_div (Fin a) PInf = Fin 0"
| "fl_div (Fin a) NInf = Fin 0"
| "fl_div PInf (Fin b) = (if 0 \<le> b then PInf else NInf)"
| "fl_div NInf (Fin b) = (if 0 \<le> b then NInf else PInf)"
| "fl_div PInf PInf = NaN"
| "fl_div PInf NInf = NaN"
| "fl_div NInf PInf = NaN"
| "fl_div NInf NInf = NaN"
| "fl_div NaN y = NaN"
| "fl_div x NaN = NaN"

text \<open>\<^verbatim>\<open>.clip(0)\<close>: the lower bound 0 on every cell; NaN stays NaN.\<close>

fun clip0 :: "fl \<Rightarrow> fl" where
  "clip0 (Fin a) = Fin (max 0 a)"
| "clip0 PInf = PInf"
| "clip0 NInf = Fin 0"
| "clip0 NaN = NaN"

text \<open>\<^verbatim>\<open>.fillna(0)\<close>: NaN becomes 0; every other value, the infinities too, stays.\<close>

fun fillna0 :: "fl \<Rightarrow> fl" where
  "fillna0 NaN = Fin 0"
| "fillna0 x = x"

text \<open>The comparisons \<open>0 \<le> x\<close> and \<open>x \<le> 0\<close> of floats: false on NaN.\<close>

fun fl_ge0 :: "fl \<Rightarrow> bool" where
  "fl_ge0 (Fin a) = (0 \<le> a)"
| "fl_ge0 PInf = True"
| "fl_ge0 NInf = False"
| "fl_ge0 NaN = False"

fun fl_le0 :: "fl \<Rightarrow> bool" where
  "fl_le0 (Fin a) = (a \<le> 0)"
| "fl_le0 PInf = False"
| "fl_le0 NInf = True"
| "fl_le0 NaN = False"

section \<open>Tables\<close>

type_synonym name = string

type_synonym snapshot = nat

text \<open>
  A table of time series (a DataFrame indexed by the snapshots of the network): its
  columns in order, each a label with one value per snapshot. A static column of a
  component table (a Series indexed by the component names) is a list of labelled
  values. A label is looked up with \<open>map_of\<close>.
\<close>

type_synonym frame = "(name \<times> (snapshot \<Rightarrow> fl)) list"

type_synonym sseries = "(name \<times> fl) list"

definition at_frame :: "frame \<Rightarrow> name \<Rightarrow> snapshot \<Rightarrow> fl" where
  "at_frame df g t = (case map_of df g of Some c \<Rightarrow> c t | None \<Rightarrow> NaN)"

definition at_series :: "sseries \<Rightarrow> name \<Rightarrow> fl" where
  "at_series s g = (case map_of s g of Some v \<Rightarrow> v | None \<Rightarrow> NaN)"

text \<open>
  The labels of an aligned result: the union of both operands' labels. (The library may
  sort a union of unequal label lists; the order of the columns is not used by the
  program, which reads tables by label.)
\<close>

definition union_labels :: "name list \<Rightarrow> name list \<Rightarrow> name list" where
  "union_labels xs ys = xs @ filter (\<lambda>y. y \<notin> set xs) (remdups ys)"

text \<open>
  \<^verbatim>\<open>df op s\<close> for a DataFrame and a Series: the index of the Series is aligned with the
  columns of the DataFrame, and a label missing on one side gives NaN.
\<close>

definition frame_op_series :: "(fl \<Rightarrow> fl \<Rightarrow> fl) \<Rightarrow> frame \<Rightarrow> sseries \<Rightarrow> frame" where
  "frame_op_series f df s =
     map (\<lambda>g. (g, \<lambda>t. f (at_frame df g t) (at_series s g)))
       (union_labels (map fst df) (map fst s))"

text \<open>\<^verbatim>\<open>df1 op df2\<close> for two DataFrames over the same snapshots: aligned on the columns.\<close>

definition frame_op_frame :: "(fl \<Rightarrow> fl \<Rightarrow> fl) \<Rightarrow> frame \<Rightarrow> frame \<Rightarrow> frame" where
  "frame_op_frame f df1 df2 =
     map (\<lambda>g. (g, \<lambda>t. f (at_frame df1 g t) (at_frame df2 g t)))
       (union_labels (map fst df1) (map fst df2))"

text \<open>A cell-wise operation (\<^verbatim>\<open>-df\<close>, \<^verbatim>\<open>.clip(0)\<close>, \<^verbatim>\<open>.fillna(0)\<close>).\<close>

definition frame_map :: "(fl \<Rightarrow> fl) \<Rightarrow> frame \<Rightarrow> frame" where
  "frame_map f df = map (\<lambda>(g, c). (g, \<lambda>t. f (c t))) df"

text \<open>\<^verbatim>\<open>df.columns = df.columns.map(f)\<close>.\<close>

definition rename_columns :: "(name \<Rightarrow> name) \<Rightarrow> frame \<Rightarrow> frame" where
  "rename_columns f df = map (\<lambda>(g, c). (f g, c)) df"

section \<open>The network\<close>

text \<open>
  A bus reference of a component is a bus name; after \<^verbatim>\<open>.map(zones)\<close> it is a zone or,
  where the mapping has no value, NaN: \<open>None\<close>. The \<^verbatim>\<open>country\<close> of a bus is a
  string, or unset (\<open>None\<close>).
\<close>

record bus =
  bus_name :: name
  country :: "string option"

record generator =
  gen_name :: name
  gen_bus :: "name option"
  p_nom :: fl
  p_nom_extendable :: bool
  p_min_pu :: fl
  p_max_pu :: fl
  marginal_cost :: fl

text \<open>
  The time series of the generators: the time-varying bounds (a generator without a
  column has its static bound at every snapshot) and the dispatch \<open>p\<close> that a solve
  writes.
\<close>

record generators_t =
  p_min_pu_t :: frame
  p_max_pu_t :: frame
  p_t :: frame

record one_port =
  op_name :: name
  op_bus :: "name option"

record branch =
  branch_name :: name
  bus0 :: "name option"
  bus1 :: "name option"

text \<open>
  The component tables of a network. The one-port components are the generators, loads,
  storage units, stores and shunt impedances; the branch components are the lines, links
  and transformers.
\<close>

record network =
  buses :: "bus list"
  generators :: "generator list"
  generators_t :: generators_t
  loads :: "one_port list"
  storage_units :: "one_port list"
  stores :: "one_port list"
  shunt_impedances :: "one_port list"
  lines :: "branch list"
  links :: "branch list"
  transformers :: "branch list"

text \<open>A static column of the generator table, as a Series indexed by the names.\<close>

definition static_series :: "(generator \<Rightarrow> fl) \<Rightarrow> generator list \<Rightarrow> sseries" where
  "static_series attr gens = map (\<lambda>g. (gen_name g, attr g)) gens"

text \<open>
  \<^verbatim>\<open>get_switchable_as_dense(n, "Generator", attr)\<close>: one column per generator of the
  static table, the time-varying column where the attribute has one for the generator,
  the static value repeated over the snapshots otherwise.
\<close>

definition as_dense :: "generator list \<Rightarrow> frame \<Rightarrow> (generator \<Rightarrow> fl) \<Rightarrow> frame" where
  "as_dense gens pnl attr =
     map (\<lambda>g. (gen_name g,
                case map_of pnl (gen_name g) of Some c \<Rightarrow> c | None \<Rightarrow> (\<lambda>t. attr g)))
       gens"

text \<open>
  \<^verbatim>\<open>n.madd(class_name, names, ...)\<close> in two steps, as the library does them. The rows
  are appended to the static table of the component; when a name would then stand twice
  in the index, the library logs an error and leaves the static table as it was. The
  given time series are then written into the attribute's table: its columns are
  extended by the new labels, and the given columns overwrite those of the same label.
\<close>

definition import_components :: "('a \<Rightarrow> name) \<Rightarrow> 'a list \<Rightarrow> 'a list \<Rightarrow> 'a list" where
  "import_components nm old new =
     (if distinct (map nm (old @ new)) then old @ new else old)"

definition import_series :: "frame \<Rightarrow> frame \<Rightarrow> frame" where
  "import_series pnl df =
     map (\<lambda>(g, c). (g, case map_of df g of Some c' \<Rightarrow> c' | None \<Rightarrow> c)) pnl
     @ filter (\<lambda>(g, c). g \<notin> set (map fst pnl)) df"

text \<open>\<^verbatim>\<open>n.mremove(class_name, names)\<close>: the rows of these names leave the table.\<close>

definition mremove :: "('a \<Rightarrow> name) \<Rightarrow> name list \<Rightarrow> 'a list \<Rightarrow> 'a list" where
  "mremove nm names df = filter (\<lambda>c. nm c \<notin> set names) df"

section \<open>The redispatch generators\<close>

text \<open>
  \<^verbatim>\<open>run_redispatch_model\<close>, from the copy of the model to the second \<^verbatim>\<open>madd\<close>: the
  part of the method before its solve.
\<close>

definition ramp_up :: "name \<Rightarrow> name" where
  "ramp_up x = x @ '' ramp up''"

definition ramp_down :: "name \<Rightarrow> name" where
  "ramp_down x = x @ '' ramp down''"

text \<open>
  \<^verbatim>\<open>p = (market.generators_t.p / market.generators.p_nom).fillna(0)\<close>
\<close>

definition realized_ratio :: "network \<Rightarrow> frame" where
  "realized_ratio market =
     frame_map fillna0
       (frame_op_series fl_div (p_t (generators_t market))
          (static_series p_nom (generators market)))"

text \<open>
  \<^verbatim>\<open>up = (as_dense(market, "Generator", "p_max_pu") * market.generators.p_nom
          - market.generators_t.p).clip(0) / market.generators.p_nom\<close>
\<close>

definition up_frame :: "network \<Rightarrow> frame" where
  "up_frame market =
     frame_op_series fl_div
       (frame_map clip0
          (frame_op_frame fl_sub
             (frame_op_series fl_mul
                (as_dense (generators market) (p_max_pu_t (generators_t market)) p_max_pu)
                (static_series p_nom (generators market)))
             (p_t (generators_t market))))
       (static_series p_nom (generators market))"

text \<open>
  \<^verbatim>\<open>down = -market.generators_t.p / market.generators.p_nom\<close>
\<close>

definition down_frame :: "network \<Rightarrow> frame" where
  "down_frame market =
     frame_op_series fl_div (frame_map fl_uminus (p_t (generators_t market)))
       (static_series p_nom (generators market))"

text \<open>
  The static rows of the two \<^verbatim>\<open>madd\<close> calls. \<^verbatim>\<open>g_up\<close> is passed without its
  \<^verbatim>\<open>p_max_pu\<close> column (the attribute is given as time series, the static value is the
  default of the library, 1), with every other column of the original, \<^verbatim>\<open>p_min_pu\<close>
  among them. \<^verbatim>\<open>g_down\<close> is passed without \<^verbatim>\<open>p_max_pu\<close> (given as the static 0) and
  without \<^verbatim>\<open>p_min_pu\<close> (given as time series, the static value is the default, 0).
\<close>

definition g_up :: "generator list \<Rightarrow> generator list" where
  "g_up gens = map (\<lambda>g. g\<lparr>gen_name := ramp_up (gen_name g), p_max_pu := Fin 1\<rparr>) gens"

definition g_down :: "generator list \<Rightarrow> generator list" where
  "g_down gens =
     map (\<lambda>g. g\<lparr>gen_name := ramp_down (gen_name g), p_min_pu := Fin 0, p_max_pu := Fin 0\<rparr>)
       gens"

definition redispatch_generators :: "network \<Rightarrow> network \<Rightarrow> network" where
  "redispatch_generators model market =
     (let p = realized_ratio market;
          up = rename_columns ramp_up (up_frame market);
          down = rename_columns ramp_down (down_frame market);
          gens1 = import_components gen_name (generators model) (g_up (generators model));
          gens2 = import_components gen_name gens1 (g_down (generators model))
      in model\<lparr>generators := gens2,
               generators_t := (generators_t model)
                 \<lparr>p_min_pu_t := import_series p down,
                  p_max_pu_t := import_series p up\<rparr>\<rparr>)"

text \<open>The bounds the solve of a network uses, per generator and snapshot.\<close>

definition dense_p_min_pu :: "network \<Rightarrow> frame" where
  "dense_p_min_pu n = as_dense (generators n) (p_min_pu_t (generators_t n)) p_min_pu"

definition dense_p_max_pu :: "network \<Rightarrow> frame" where
  "dense_p_max_pu n = as_dense (generators n) (p_max_pu_t (generators_t n)) p_max_pu"

text \<open>
  The quantities the bounds are derived from, read off the solved market network: the
  upper dispatch ratio available to a generator at a snapshot (its time-varying
  \<^verbatim>\<open>p_max_pu\<close>, its static one where it has no time series) and its dispatch (NaN where
  the market network holds no dispatch for it).
\<close>

definition available_max :: "network \<Rightarrow> generator \<Rightarrow> snapshot \<Rightarrow> fl" where
  "available_max market g t =
     (case map_of (p_max_pu_t (generators_t market)) (gen_name g) of
        Some c \<Rightarrow> c t
      | None \<Rightarrow> p_max_pu g)"

definition market_p :: "network \<Rightarrow> name \<Rightarrow> snapshot \<Rightarrow> fl" where
  "market_p market g t = at_frame (p_t (generators_t market)) g t"

text \<open>
  The names for which the program creates the synthetic generators. The ramp-up
  generators are added when the generator names are unique and none of them is the name
  of a generator followed by \<^verbatim>\<open>" ramp up"\<close>; the ramp-down generators likewise, with
  \<^verbatim>\<open>" ramp down"\<close>; both kinds are added when both conditions hold.
\<close>

definition fresh_up :: "name list \<Rightarrow> bool" where
  "fresh_up names \<longleftrightarrow> distinct names \<and> list_all (\<lambda>g. ramp_up g \<notin> set names) names"

definition fresh_down :: "name list \<Rightarrow> bool" where
  "fresh_down names \<longleftrightarrow> distinct names \<and> list_all (\<lambda>g. ramp_down g \<notin> set names) names"

definition fresh_names :: "name list \<Rightarrow> bool" where
  "fresh_names names \<longleftrightarrow>
     distinct names \<and>
     list_all (\<lambda>g. ramp_up g \<notin> set names \<and> ramp_down g \<notin> set names) names"

text \<open>
  The solved market network has the generators of the model, with dispatch columns for
  these only.
\<close>

definition same_generators :: "network \<Rightarrow> network \<Rightarrow> bool" where
  "same_generators model market \<longleftrightarrow>
     map gen_name (generators market) = map gen_name (generators model) \<and>
     list_all (\<lambda>c. c \<in> set (map gen_name (generators model)))
       (map fst (p_t (generators_t market)))"

section \<open>Bidding zones\<close>

text \<open>
  \<^verbatim>\<open>zones = self.network_model.buses.country\<close>: the Series of the countries, indexed by
  the bus names. \<^verbatim>\<open>column.map(zones)\<close> looks every bus reference up in it; a reference
  that is not in the index, or whose country is unset, becomes NaN. Nothing is raised.
\<close>

definition zones :: "network \<Rightarrow> (name \<times> string option) list" where
  "zones network_model = map (\<lambda>b. (bus_name b, country b)) (buses network_model)"

definition map_zones :: "(name \<times> string option) list \<Rightarrow> name option \<Rightarrow> name option" where
  "map_zones z b =
     (case b of
        None \<Rightarrow> None
      | Some v \<Rightarrow> (case map_of z v of None \<Rightarrow> None | Some c \<Rightarrow> c))"

text \<open>
  \<^verbatim>\<open>internal = c.df.bus0 == c.df.bus1\<close>, row by row. The comparison of the library is
  false wherever an operand is NaN.
\<close>

definition internal :: "branch \<Rightarrow> bool" where
  "internal b =
     (case bus0 b of
        None \<Rightarrow> False
      | Some x \<Rightarrow> (case bus1 b of None \<Rightarrow> False | Some y \<Rightarrow> x = y))"

definition rewrite_branch :: "(name \<times> string option) list \<Rightarrow> branch \<Rightarrow> branch" where
  "rewrite_branch z b = b\<lparr>bus0 := map_zones z (bus0 b), bus1 := map_zones z (bus1 b)\<rparr>"

text \<open>The body of the loop over the branch components, for one component table.\<close>

definition aggregate_branches :: "(name \<times> string option) list \<Rightarrow> branch list \<Rightarrow> branch list" where
  "aggregate_branches z df =
     (let df' = map (rewrite_branch z) df
      in mremove branch_name (map branch_name (filter internal df')) df')"

definition aggregate_one_ports :: "(name \<times> string option) list \<Rightarrow> one_port list \<Rightarrow> one_port list" where
  "aggregate_one_ports z df = map (\<lambda>c. c\<lparr>op_bus := map_zones z (op_bus c)\<rparr>) df"

text \<open>
  \<^verbatim>\<open>zones.unique()\<close>: the values in the order of their first occurrence, NaN among them
  when a country is unset. \<^verbatim>\<open>madd("Bus", ...)\<close> turns the values into names, NaN into
  the string \<^verbatim>\<open>nan\<close>; the new buses have the default attributes of the library, no
  country.
\<close>

definition unique :: "'a list \<Rightarrow> 'a list" where
  "unique xs = rev (remdups (rev xs))"

definition zone_str :: "string option \<Rightarrow> name" where
  "zone_str z = (case z of None \<Rightarrow> ''nan'' | Some c \<Rightarrow> c)"

definition new_bus :: "name \<Rightarrow> bus" where
  "new_bus n = \<lparr>bus_name = n, country = None\<rparr>"

text \<open>
  \<^verbatim>\<open>run_market_model\<close> from the zones to the new buses: the market network built from a
  copy of the model, before its solve.
\<close>

definition bidding_zones :: "network \<Rightarrow> network \<Rightarrow> network" where
  "bidding_zones network_model market =
     (let z = zones network_model
      in market
           \<lparr>generators := map (\<lambda>g. g\<lparr>gen_bus := map_zones z (gen_bus g)\<rparr>) (generators market),
            loads := aggregate_one_ports z (loads market),
            storage_units := aggregate_one_ports z (storage_units market),
            stores := aggregate_one_ports z (stores market),
            shunt_impedances := aggregate_one_ports z (shunt_impedances market),
            lines := aggregate_branches z (lines market),
            links := aggregate_branches z (links market),
            transformers := aggregate_branches z (transformers market),
            buses :=
              import_components bus_name
                (mremove bus_name (map bus_name (buses market)) (buses market))
                (map (new_bus \<circ> zone_str) (unique (map snd z)))\<rparr>)"

text \<open>
  A branch whose two endpoints are mapped to the same zone: what the aggregation is meant
  to remove. A table of branches in which every branch has an endpoint with a zone.
\<close>

definition same_zone :: "(name \<times> string option) list \<Rightarrow> branch \<Rightarrow> bool" where
  "same_zone z b \<longleftrightarrow> map_zones z (bus0 b) = map_zones z (bus1 b)"

definition zoned :: "(name \<times> string option) list \<Rightarrow> branch list \<Rightarrow> bool" where
  "zoned z df \<longleftrightarrow>
     list_all (\<lambda>b. \<not> (map_zones z (bus0 b) = None \<and> map_zones z (bus1 b) = None)) df"

text \<open>
  The networks that are already expressed in zones: the bus names are unique and every
  bus is its own zone. A table of branches of such a network is well formed when its
  names are unique and every endpoint is a bus of the network.
\<close>

definition known_bus :: "network \<Rightarrow> name option \<Rightarrow> bool" where
  "known_bus n r = (case r of None \<Rightarrow> False | Some x \<Rightarrow> x \<in> set (map bus_name (buses n)))"

definition zone_buses :: "network \<Rightarrow> bool" where
  "zone_buses n \<longleftrightarrow>
     distinct (map bus_name (buses n)) \<and>
     list_all (\<lambda>b. country b = Some (bus_name b)) (buses n)"

definition wf_branches :: "network \<Rightarrow> branch list \<Rightarrow> bool" where
  "wf_branches n df \<longleftrightarrow>
     distinct (map branch_name df) \<and>
     list_all (\<lambda>b. known_bus n (bus0 b) \<and> known_bus n (bus1 b)) df"

text \<open>
  What the aggregation is to do with one table of branches: the table afterwards holds the
  rewritten branches whose endpoints are not in the same zone, in their order; that many
  rows are gone as had both endpoints in one zone; and the two endpoints of every
  remaining branch differ.
\<close>

definition removes_internal :: "(name \<times> string option) list \<Rightarrow> branch list \<Rightarrow> branch list \<Rightarrow> bool" where
  "removes_internal z before after \<longleftrightarrow>
     after = map (rewrite_branch z) (filter (\<lambda>b. \<not> same_zone z b) before) \<and>
     length after = length before - length (filter (same_zone z) before) \<and>
     list_all (\<lambda>b. bus0 b \<noteq> bus1 b) after"

text \<open>
  What the aggregation does with the references to a bus \<open>k\<close> without a zone. In a
  column of bus references, row by row: where the column held \<open>k\<close> it holds the undefined
  value afterwards. In a table of branches: every branch with an endpoint at \<open>k\<close> is
  still in the table, under its name, with this endpoint undefined.
\<close>

definition refs_undefined :: "name \<Rightarrow> name option list \<Rightarrow> name option list \<Rightarrow> bool" where
  "refs_undefined k before after \<longleftrightarrow> list_all2 (\<lambda>x y. x = Some k \<longrightarrow> y = None) before after"

definition keeps_undefined :: "name \<Rightarrow> branch list \<Rightarrow> branch list \<Rightarrow> bool" where
  "keeps_undefined k before after \<longleftrightarrow>
     list_all (\<lambda>l. bus0 l = Some k \<or> bus1 l = Some k \<longrightarrow>
                 list_ex (\<lambda>l'. branch_name l' = branch_name l \<and>
                                (bus0 l = Some k \<longrightarrow> bus0 l' = None) \<and>
                                (bus1 l = Some k \<longrightarrow> bus1 l' = None)) after) before"

section \<open>The three stages\<close>

text \<open>
  The solver and the export of the results are outside the program. A call of
  \<^verbatim>\<open>network.optimize(solver_name=..., solver_options=...)\<close> either raises, or returns
  a status and a termination condition and leaves its results in the network; the
  program does not look at what is returned. The solver is a parameter of the model.
  Every call of \<^verbatim>\<open>optimize\<close> and of \<^verbatim>\<open>export_model_results\<close> is recorded in a trace,
  the solve with the solver name and options it was given and with its outcome.
\<close>

datatype error =
  AssertionError | SolverInfeasible | SolverError | UnmappedBusError | GeneratorMismatchError

datatype stage = NetworkModel | MarketModel | RedispatchModel

datatype optval = OInt int | OReal real

type_synonym options = "(string \<times> optval) list"

text \<open>The \<^verbatim>\<open>solver_settings\<close> argument of the constructor: any value.\<close>

datatype pyval = PyNone | PyStr string | PyDict options

datatype solved = Raises error | Returns string string network

type_synonym solver_fn = "string \<Rightarrow> options \<Rightarrow> network \<Rightarrow> solved"

datatype outcome = Raised error | Returned string string

datatype event = Optimize stage string options outcome | Export stage

text \<open>
  The attributes of the \<^verbatim>\<open>RedispatchModel\<close> object. An attribute that is not set yet
  (\<^verbatim>\<open>hasattr\<close> is false) is \<open>None\<close>.
\<close>

record rstate =
  model :: network
  solver :: string
  solver_settings :: options
  network_model :: "network option"
  market_model :: "network option"
  redispatch_model :: "network option"
  trace :: "event list"

definition gurobi_default :: options where
  "gurobi_default =
     [(''Crossover'', OInt 0), (''Threads'', OInt 4), (''Method'', OInt 2),
      (''BarConvTol'', OReal (1 / 1000000)), (''Seed'', OInt 123), (''AggFill'', OInt 0),
      (''PreDual'', OInt 0), (''GURO_PAR_BARDENSETHRESH'', OInt 200)]"

definition set_solver :: "string \<Rightarrow> pyval \<Rightarrow> rstate \<Rightarrow> rstate" where
  "set_solver sv settings s =
     (let s1 = s\<lparr>solver := sv, solver_settings := []\<rparr>
      in if sv = ''gurobi''
         then (if settings = PyStr ''default''
               then s1\<lparr>solver_settings := gurobi_default\<rparr>
               else s1)
         else s1)"

definition optimize :: "solver_fn \<Rightarrow> stage \<Rightarrow> network \<Rightarrow> rstate \<Rightarrow> error \<times> rstate + network \<times> rstate" where
  "optimize solve st n s =
     (case solve (solver s) (solver_settings s) n of
        Raises e \<Rightarrow>
          Inl (e, s\<lparr>trace := trace s @ [Optimize st (solver s) (solver_settings s) (Raised e)]\<rparr>)
      | Returns status cond n' \<Rightarrow>
          Inr (n', s\<lparr>trace := trace s
                     @ [Optimize st (solver s) (solver_settings s) (Returned status cond)]\<rparr>))"

definition export_model_results :: "stage \<Rightarrow> rstate \<Rightarrow> rstate" where
  "export_model_results st s = s\<lparr>trace := trace s @ [Export st]\<rparr>"

definition run_network_model :: "solver_fn \<Rightarrow> rstate \<Rightarrow> error \<times> rstate + rstate" where
  "run_network_model solve s =
     (case optimize solve NetworkModel (model s) (s\<lparr>network_model := Some (model s)\<rparr>) of
        Inl x \<Rightarrow> Inl x
      | Inr (n, s') \<Rightarrow> Inr (export_model_results NetworkModel (s'\<lparr>network_model := Some n\<rparr>)))"

definition run_market_model :: "solver_fn \<Rightarrow> rstate \<Rightarrow> error \<times> rstate + rstate" where
  "run_market_model solve s =
     (case network_model s of
        None \<Rightarrow> Inl (AssertionError, s)
      | Some nm \<Rightarrow>
          (let m = bidding_zones nm (model s)
           in case optimize solve MarketModel m (s\<lparr>market_model := Some m\<rparr>) of
                Inl x \<Rightarrow> Inl x
              | Inr (n, s') \<Rightarrow>
                  Inr (export_model_results MarketModel (s'\<lparr>market_model := Some n\<rparr>))))"

definition run_redispatch_model :: "solver_fn \<Rightarrow> rstate \<Rightarrow> error \<times> rstate + rstate" where
  "run_redispatch_model solve s =
     (case network_model s of
        None \<Rightarrow> Inl (AssertionError, s)
      | Some nm \<Rightarrow>
          (case market_model s of
             None \<Rightarrow> Inl (AssertionError, s)
           | Some mm \<Rightarrow>
               (let r = redispatch_generators (model s) mm
                in case optimize solve RedispatchModel r (s\<lparr>redispatch_model := Some r\<rparr>) of
                     Inl x \<Rightarrow> Inl x
                   | Inr (n, s') \<Rightarrow>
                       Inr (export_model_results RedispatchModel
                              (s'\<lparr>redispatch_model := Some n\<rparr>)))))"

text \<open>
  The constructor \<^verbatim>\<open>RedispatchModel(model, folder_path, solver, solver_settings)\<close>, with
  the network read from the file as its argument: the three stages in order. An
  exception leaves the constructor where it is raised.
\<close>

definition init :: "solver_fn \<Rightarrow> network \<Rightarrow> string \<Rightarrow> pyval \<Rightarrow> error \<times> rstate + rstate" where
  "init solve m sv settings =
     (let s = set_solver sv settings
                \<lparr>model = m, solver = [], solver_settings = [], network_model = None,
                 market_model = None, redispatch_model = None, trace = []\<rparr>
      in case run_network_model solve s of
           Inl x \<Rightarrow> Inl x
         | Inr s1 \<Rightarrow>
             (case run_market_model solve s1 of
                Inl x \<Rightarrow> Inl x
              | Inr s2 \<Rightarrow> run_redispatch_model solve s2))"

text \<open>The object as the constructor leaves it, or as it was when the exception left.\<close>

definition final :: "error \<times> rstate + rstate \<Rightarrow> rstate" where
  "final r = (case r of Inl (e, s) \<Rightarrow> s | Inr s \<Rightarrow> s)"

text \<open>
  The exception that left the constructor or a stage, if any.
\<close>

definition raised :: "error \<times> rstate + rstate \<Rightarrow> error option" where
  "raised r = (case r of Inl (e, s) \<Rightarrow> Some e | Inr s \<Rightarrow> None)"

text \<open>
  The object before the first stage, and the options that \<^verbatim>\<open>set_solver\<close> leaves in it.
\<close>

definition init_state :: "network \<Rightarrow> string \<Rightarrow> pyval \<Rightarrow> rstate" where
  "init_state m sv settings =
     set_solver sv settings
       \<lparr>model = m, solver = [], solver_settings = [], network_model = None,
        market_model = None, redispatch_model = None, trace = []\<rparr>"

definition options_of :: "string \<Rightarrow> pyval \<Rightarrow> options" where
  "options_of sv settings =
     (if sv = ''gurobi'' \<and> settings = PyStr ''default'' then gurobi_default else [])"

text \<open>
  The calls a stage adds to the trace, from what its solve does: the solve and, when it
  returned, the export.
\<close>

definition stage_trace :: "stage \<Rightarrow> string \<Rightarrow> options \<Rightarrow> solved \<Rightarrow> event list" where
  "stage_trace st sv so r =
     (case r of
        Raises e \<Rightarrow> [Optimize st sv so (Raised e)]
      | Returns status cond n \<Rightarrow> [Optimize st sv so (Returned status cond), Export st])"

section \<open>Example networks\<close>

text \<open>
  A network of three buses in two countries, two lines, one load, and the given
  generators and dispatch.
\<close>

definition ex_gen :: "name \<Rightarrow> fl \<Rightarrow> fl \<Rightarrow> generator" where
  "ex_gen n pn pmin =
     \<lparr>gen_name = n, gen_bus = Some ''b1'', p_nom = pn, p_nom_extendable = True,
      p_min_pu = pmin, p_max_pu = Fin 1, marginal_cost = Fin 10\<rparr>"

definition ex_network :: "generator list \<Rightarrow> frame \<Rightarrow> network" where
  "ex_network gens p =
     \<lparr>buses = [\<lparr>bus_name = ''b1'', country = Some ''DE''\<rparr>,
               \<lparr>bus_name = ''b2'', country = Some ''DE''\<rparr>,
               \<lparr>bus_name = ''b3'', country = Some ''FR''\<rparr>],
      generators = gens,
      generators_t = \<lparr>p_min_pu_t = [], p_max_pu_t = [], p_t = p\<rparr>,
      loads = [\<lparr>op_name = ''load'', op_bus = Some ''b2''\<rparr>],
      storage_units = [], stores = [], shunt_impedances = [],
      lines = [\<lparr>branch_name = ''l12'', bus0 = Some ''b1'', bus1 = Some ''b2''\<rparr>,
               \<lparr>branch_name = ''l23'', bus0 = Some ''b2'', bus1 = Some ''b3''\<rparr>],
      links = [], transformers = []\<rparr>"

text \<open>
  The same network with the country of the third bus unset and a second load, on this
  bus; a network whose buses are zones already; the object after a first stage that went
  well.
\<close>

definition ex_unmapped :: network where
  "ex_unmapped =
     (ex_network [ex_gen ''g1'' (Fin 100) (Fin 0)] [])
       \<lparr>buses := [\<lparr>bus_name = ''b1'', country = Some ''DE''\<rparr>,
                  \<lparr>bus_name = ''b2'', country = Some ''DE''\<rparr>,
                  \<lparr>bus_name = ''b3'', country = None\<rparr>],
        loads := [\<lparr>op_name = ''load'', op_bus = Some ''b2''\<rparr>,
                  \<lparr>op_name = ''load3'', op_bus = Some ''b3''\<rparr>]\<rparr>"

definition ex_zone_network :: network where
  "ex_zone_network =
     (ex_network [ex_gen ''g1'' (Fin 100) (Fin 0)] [])
       \<lparr>buses := [\<lparr>bus_name = ''DE'', country = Some ''DE''\<rparr>,
                  \<lparr>bus_name = ''FR'', country = Some ''FR''\<rparr>],
        lines := [\<lparr>branch_name = ''l1'', bus0 = Some ''DE'', bus1 = Some ''FR''\<rparr>,
                  \<lparr>branch_name = ''l2'', bus0 = Some ''DE'', bus1 = Some ''DE''\<rparr>]\<rparr>"

text \<open>
  The network with the unset country and one line, from the bus without a zone to
  itself.
\<close>

definition ex_unmapped_loop :: network where
  "ex_unmapped_loop =
     ex_unmapped\<lparr>lines := [\<lparr>branch_name = ''l33'', bus0 = Some ''b3'', bus1 = Some ''b3''\<rparr>]\<rparr>"

definition ex_state :: "network \<Rightarrow> rstate" where
  "ex_state n =
     \<lparr>model = n, solver = ''gurobi'', solver_settings = gurobi_default,
      network_model = Some n, market_model = None, redispatch_model = None,
      trace = [Optimize NetworkModel ''gurobi'' gurobi_default (Returned ''ok'' ''optimal''),
               Export NetworkModel]\<rparr>"

text \<open>
  Solvers: one that returns the given status and termination condition and leaves the
  network as it is; one that reports an infeasible problem for a network of fewer than
  three buses (the zonal network of the example) and an optimum otherwise; one that
  raises on such a network; and one that raises when a line of the network has an
  undefined endpoint.
\<close>

definition ex_solver :: "string \<Rightarrow> string \<Rightarrow> solver_fn" where
  "ex_solver status cond = (\<lambda>sv so n. Returns status cond n)"

definition ex_solver_zonal_infeasible :: solver_fn where
  "ex_solver_zonal_infeasible =
     (\<lambda>sv so n. if length (buses n) < 3 then Returns ''warning'' ''infeasible'' n
                 else Returns ''ok'' ''optimal'' n)"

definition ex_solver_zonal_raises :: solver_fn where
  "ex_solver_zonal_raises =
     (\<lambda>sv so n. if length (buses n) < 3 then Raises SolverInfeasible
                 else Returns ''ok'' ''optimal'' n)"

definition ex_solver_refuses_undefined :: solver_fn where
  "ex_solver_refuses_undefined =
     (\<lambda>sv so n. if list_ex (\<lambda>l. bus0 l = None \<or> bus1 l = None) (lines n) then Raises SolverError
                 else Returns ''ok'' ''optimal'' n)"

section \<open>Lookups in the tables\<close>

lemma map_of_graph:
  "map_of (map (\<lambda>g. (g, F g)) ks) k = (if k \<in> set ks then Some (F k) else None)"
  by (induction ks) auto

lemma map_of_None_iff: "map_of df k = None \<longleftrightarrow> k \<notin> fst ` set df"
  by (simp add: map_of_eq_None_iff)

lemma set_union_labels: "set (union_labels xs ys) = set xs \<union> set ys"
  by (auto simp: union_labels_def)

lemma at_frame_missing: "k \<notin> fst ` set df \<Longrightarrow> at_frame df k t = NaN"
  by (simp add: at_frame_def map_of_eq_None_iff[THEN iffD2])

lemma at_series_missing: "k \<notin> fst ` set s \<Longrightarrow> at_series s k = NaN"
  by (simp add: at_series_def map_of_eq_None_iff[THEN iffD2])

lemma map_of_frame_op_series:
  "map_of (frame_op_series f df s) k =
     (if k \<in> fst ` set df \<union> fst ` set s
      then Some (\<lambda>t. f (at_frame df k t) (at_series s k)) else None)"
  by (simp add: frame_op_series_def map_of_graph set_union_labels)

lemma map_of_frame_op_frame:
  "map_of (frame_op_frame f df1 df2) k =
     (if k \<in> fst ` set df1 \<union> fst ` set df2
      then Some (\<lambda>t. f (at_frame df1 k t) (at_frame df2 k t)) else None)"
  by (simp add: frame_op_frame_def map_of_graph set_union_labels)

lemma at_frame_frame_op_series:
  "f NaN NaN = NaN \<Longrightarrow>
   at_frame (frame_op_series f df s) k t = f (at_frame df k t) (at_series s k)"
  by (auto simp: at_frame_missing at_series_missing map_of_frame_op_series at_frame_def[of "frame_op_series f df s"])

lemma at_frame_frame_op_frame:
  "f NaN NaN = NaN \<Longrightarrow>
   at_frame (frame_op_frame f df1 df2) k t = f (at_frame df1 k t) (at_frame df2 k t)"
  by (auto simp: at_frame_missing map_of_frame_op_frame at_frame_def[of "frame_op_frame f df1 df2"])

lemma map_of_frame_map:
  "map_of (frame_map f df) k = map_option (\<lambda>c t. f (c t)) (map_of df k)"
  by (induction df) (auto simp: frame_map_def)

lemma at_frame_frame_map:
  "f NaN = NaN \<Longrightarrow> at_frame (frame_map f df) k t = f (at_frame df k t)"
  by (simp add: at_frame_def map_of_frame_map split: option.splits)

lemma fst_set_frame_map: "fst ` set (frame_map f df) = fst ` set df"
  by (force simp: frame_map_def)

lemma fst_set_frame_op_series:
  "fst ` set (frame_op_series f df s) = fst ` set df \<union> fst ` set s"
  by (force simp: frame_op_series_def set_union_labels)

lemma fst_set_frame_op_frame:
  "fst ` set (frame_op_frame f df1 df2) = fst ` set df1 \<union> fst ` set df2"
  by (force simp: frame_op_frame_def set_union_labels)

lemma map_of_rename_columns:
  "inj f \<Longrightarrow> map_of (rename_columns f df) (f k) = map_of df k"
  by (induction df) (auto simp: rename_columns_def inj_eq)

lemma fst_set_rename_columns: "fst ` set (rename_columns f df) = f ` fst ` set df"
  by (force simp: rename_columns_def)

lemma map_of_import_series:
  "map_of (import_series pnl df) k =
     (case map_of df k of Some c \<Rightarrow> Some c | None \<Rightarrow> map_of pnl k)"
proof -
  have a: "map_of (map (\<lambda>(g, c). (g, case map_of df g of Some c' \<Rightarrow> c' | None \<Rightarrow> c)) pnl) k
        = map_option (\<lambda>c. case map_of df k of Some c' \<Rightarrow> c' | None \<Rightarrow> c) (map_of pnl k)"
    by (induction pnl) (auto split: option.splits)
  have b: "k \<notin> fst ` set pnl \<Longrightarrow>
        map_of (filter (\<lambda>(g, c). g \<notin> set (map fst pnl)) df) k = map_of df k"
    by (induction df) (auto simp: image_iff)
  show ?thesis
  proof (cases "map_of pnl k")
    case None
    then have "k \<notin> fst ` set pnl" by (simp add: map_of_eq_None_iff)
    with None a b show ?thesis
      by (simp add: import_series_def map_add_def split: option.splits)
  next
    case (Some c)
    with a show ?thesis
      by (auto simp add: import_series_def map_add_def split: option.splits)
  qed
qed

lemma map_of_as_dense:
  "map_of (as_dense gens pnl attr) k =
     map_option (\<lambda>g. case map_of pnl k of Some c \<Rightarrow> c | None \<Rightarrow> (\<lambda>t. attr g))
       (find (\<lambda>g. gen_name g = k) gens)"
  by (induction gens) (auto simp: as_dense_def)

lemma at_series_static_series:
  "find (\<lambda>g. gen_name g = k) gens = Some g \<Longrightarrow> at_series (static_series attr gens) k = attr g"
  by (induction gens) (auto simp: at_series_def static_series_def split: if_splits)

lemma fst_set_static_series: "fst ` set (static_series attr gens) = gen_name ` set gens"
  by (force simp: static_series_def)

lemma fst_set_as_dense: "fst ` set (as_dense gens pnl attr) = gen_name ` set gens"
  by (force simp: as_dense_def)

lemma inj_ramp_up: "inj ramp_up"
  by (simp add: inj_on_def ramp_up_def)

lemma inj_ramp_down: "inj ramp_down"
  by (simp add: inj_on_def ramp_down_def)

lemma ramp_up_neq_ramp_down: "ramp_up a \<noteq> ramp_down b"
proof
  assume "ramp_up a = ramp_down b"
  then have "last (ramp_up a) = last (ramp_down b)" by simp
  then show False by (simp add: ramp_up_def ramp_down_def)
qed

lemma distinct_map_inj: "inj f \<Longrightarrow> distinct xs \<Longrightarrow> distinct (map f xs)"
  by (induction xs) (auto simp: inj_eq)

lemma fresh_up_disjoint: "fresh_names ns \<Longrightarrow> set ns \<inter> set (map ramp_up ns) = {}"
  by (auto simp: fresh_names_def list_all_iff)

lemma fresh_down_disjoint: "fresh_names ns \<Longrightarrow> set ns \<inter> set (map ramp_down ns) = {}"
  by (auto simp: fresh_names_def list_all_iff)

lemma names_g_up: "map gen_name (g_up gens) = map ramp_up (map gen_name gens)"
  by (simp add: g_up_def)

lemma names_g_down: "map gen_name (g_down gens) = map ramp_down (map gen_name gens)"
  by (simp add: g_down_def)

lemma fresh_import_up:
  assumes "fresh_names (map gen_name gens)"
  shows "import_components gen_name gens (g_up gens) = gens @ g_up gens"
proof -
  have "distinct (map ramp_up (map gen_name gens))"
    using assms unfolding fresh_names_def by (blast intro: distinct_map_inj[OF inj_ramp_up])
  moreover have "set (map gen_name gens) \<inter> set (map ramp_up (map gen_name gens)) = {}"
    using assms by (rule fresh_up_disjoint)
  ultimately show ?thesis
    using assms by (simp add: import_components_def names_g_up fresh_names_def)
qed

lemma fresh_import_down:
  assumes "fresh_names (map gen_name gens)"
  shows "import_components gen_name (gens @ g_up gens) (g_down gens) = gens @ g_up gens @ g_down gens"
proof -
  have "distinct (map gen_name (gens @ g_up gens))"
    using fresh_import_up[OF assms] assms
    by (simp add: import_components_def fresh_names_def split: if_splits)
  moreover have "distinct (map ramp_down (map gen_name gens))"
    using assms unfolding fresh_names_def by (blast intro: distinct_map_inj[OF inj_ramp_down])
  moreover have "set (map gen_name gens) \<inter> set (map ramp_down (map gen_name gens)) = {}"
    using assms by (rule fresh_down_disjoint)
  moreover have "set (map ramp_up (map gen_name gens)) \<inter> set (map ramp_down (map gen_name gens)) = {}"
    using ramp_up_neq_ramp_down by auto
  ultimately show ?thesis
    by (auto simp: import_components_def names_g_up names_g_down)
qed

lemma generators_redispatch:
  "fresh_names (map gen_name (generators nodal)) \<Longrightarrow>
   generators (redispatch_generators nodal market) =
     generators nodal @ g_up (generators nodal) @ g_down (generators nodal)"
  by (simp add: redispatch_generators_def Let_def fresh_import_up fresh_import_down)

lemma p_min_pu_t_redispatch:
  "p_min_pu_t (generators_t (redispatch_generators nodal market)) =
     import_series (realized_ratio market) (rename_columns ramp_down (down_frame market))"
  by (simp add: redispatch_generators_def Let_def)

lemma p_max_pu_t_redispatch:
  "p_max_pu_t (generators_t (redispatch_generators nodal market)) =
     import_series (realized_ratio market) (rename_columns ramp_up (up_frame market))"
  by (simp add: redispatch_generators_def Let_def)

lemma find_app:
  "find P (xs @ ys) = (case find P xs of None \<Rightarrow> find P ys | Some x \<Rightarrow> Some x)"
  by (induction xs) auto

lemma find_name_None: "k \<notin> gen_name ` set gens \<Longrightarrow> find (\<lambda>x. gen_name x = k) gens = None"
  by (induction gens) auto

lemma find_name_mem: "find (\<lambda>x. gen_name x = k) gens = Some g \<Longrightarrow> k \<in> gen_name ` set gens"
  by (induction gens) (auto split: if_splits)

lemma find_g_up:
  "find (\<lambda>x. gen_name x = ramp_up k) (g_up gens) =
     map_option (\<lambda>g. g\<lparr>gen_name := ramp_up (gen_name g), p_max_pu := Fin 1\<rparr>)
       (find (\<lambda>x. gen_name x = k) gens)"
  by (induction gens) (auto simp: g_up_def inj_eq[OF inj_ramp_up])

lemma find_g_down:
  "find (\<lambda>x. gen_name x = ramp_down k) (g_down gens) =
     map_option (\<lambda>g. g\<lparr>gen_name := ramp_down (gen_name g), p_min_pu := Fin 0, p_max_pu := Fin 0\<rparr>)
       (find (\<lambda>x. gen_name x = k) gens)"
  by (induction gens) (auto simp: g_down_def inj_eq[OF inj_ramp_down])

lemma ramp_down_notin_g_up: "ramp_down k \<notin> gen_name ` set (g_up gens)"
proof -
  have "set (map gen_name (g_up gens)) = set (map ramp_up (map gen_name gens))"
    by (simp only: names_g_up)
  then have "gen_name ` set (g_up gens) = ramp_up ` (gen_name ` set gens)"
    by (simp only: set_map)
  then show ?thesis
    using ramp_up_neq_ramp_down by (metis imageE)
qed

lemma ramp_up_notin_g_down: "ramp_up k \<notin> gen_name ` set (g_down gens)"
proof -
  have "set (map gen_name (g_down gens)) = set (map ramp_down (map gen_name gens))"
    by (simp only: names_g_down)
  then have "gen_name ` set (g_down gens) = ramp_down ` (gen_name ` set gens)"
    by (simp only: set_map)
  then show ?thesis
    using ramp_up_neq_ramp_down by (metis imageE)
qed

lemma fresh_ramp_notin:
  "fresh_names ns \<Longrightarrow> k \<in> set ns \<Longrightarrow> ramp_up k \<notin> set ns \<and> ramp_down k \<notin> set ns"
  by (simp add: fresh_names_def list_all_iff)

lemma fresh_not_ramp:
  "fresh_names ns \<Longrightarrow> k \<in> set ns \<Longrightarrow> k \<notin> ramp_up ` set ns \<and> k \<notin> ramp_down ` set ns"
  by (auto simp: fresh_names_def list_all_iff)

lemma find_redispatch_orig:
  assumes "fresh_names (map gen_name (generators nodal))"
      and "find (\<lambda>x. gen_name x = k) (generators nodal) = Some og"
  shows "find (\<lambda>x. gen_name x = k) (generators (redispatch_generators nodal market)) = Some og"
  using assms by (simp add: generators_redispatch find_app)

lemma find_redispatch_up:
  assumes "fresh_names (map gen_name (generators nodal))"
      and "find (\<lambda>x. gen_name x = k) (generators nodal) = Some og"
  shows "find (\<lambda>x. gen_name x = ramp_up k) (generators (redispatch_generators nodal market))
           = Some (og\<lparr>gen_name := ramp_up (gen_name og), p_max_pu := Fin 1\<rparr>)"
proof -
  have "k \<in> set (map gen_name (generators nodal))"
    using find_name_mem[OF assms(2)] by simp
  then have "ramp_up k \<notin> gen_name ` set (generators nodal)"
    using fresh_ramp_notin[OF assms(1)] by simp
  then show ?thesis
    using assms by (simp add: generators_redispatch find_app find_name_None find_g_up)
qed

lemma fst_set_realized_ratio:
  "fst ` set (realized_ratio market) =
     fst ` set (p_t (generators_t market)) \<union> gen_name ` set (generators market)"
  by (simp add: realized_ratio_def fst_set_frame_map fst_set_frame_op_series fst_set_static_series)

lemma fst_set_up_frame:
  "fst ` set (up_frame market) =
     gen_name ` set (generators market) \<union> fst ` set (p_t (generators_t market))"
  by (auto simp: up_frame_def fst_set_frame_map fst_set_frame_op_series fst_set_static_series
      fst_set_frame_op_frame fst_set_as_dense)

lemma fst_set_down_frame:
  "fst ` set (down_frame market) =
     fst ` set (p_t (generators_t market)) \<union> gen_name ` set (generators market)"
  by (simp add: down_frame_def fst_set_frame_map fst_set_frame_op_series fst_set_static_series)

lemma same_generators_columns:
  assumes "same_generators nodal market"
  shows "gen_name ` set (generators market) = gen_name ` set (generators nodal)"
    and "fst ` set (p_t (generators_t market)) \<subseteq> gen_name ` set (generators nodal)"
proof -
  from assms have "map gen_name (generators market) = map gen_name (generators nodal)"
    by (simp add: same_generators_def)
  then have "set (map gen_name (generators market)) = set (map gen_name (generators nodal))"
    by simp
  then show "gen_name ` set (generators market) = gen_name ` set (generators nodal)"
    by simp
  from assms show "fst ` set (p_t (generators_t market)) \<subseteq> gen_name ` set (generators nodal)"
    by (auto simp: same_generators_def list_all_iff)
qed

lemma map_of_notin: "k \<notin> fst ` set df \<Longrightarrow> map_of df k = None"
  by (simp add: map_of_eq_None_iff)

lemma map_of_in: "k \<in> fst ` set df \<Longrightarrow> \<exists>c. map_of df k = Some c"
  by (cases "map_of df k") (auto simp: map_of_eq_None_iff)

lemma at_frame_Some: "map_of df k = Some c \<Longrightarrow> at_frame df k t = c t"
  by (simp add: at_frame_def)

lemma map_of_eq_at_frame: "k \<in> fst ` set df \<Longrightarrow> map_of df k = Some (at_frame df k)"
  by (cases "map_of df k") (auto simp: map_of_eq_None_iff at_frame_def)

lemma at_frame_as_dense:
  "find (\<lambda>x. gen_name x = k) gens = Some g \<Longrightarrow>
   at_frame (as_dense gens pnl attr) k t =
     (case map_of pnl k of Some c \<Rightarrow> c t | None \<Rightarrow> attr g)"
  by (simp add: at_frame_def map_of_as_dense split: option.splits)

lemma find_name_eq: "find (\<lambda>x. gen_name x = k) gens = Some g \<Longrightarrow> gen_name g = k"
  by (induction gens) (auto split: if_splits)

lemma at_frame_up_frame:
  assumes "find (\<lambda>x. gen_name x = k) (generators market) = Some mg"
  shows "at_frame (up_frame market) k t =
     fl_div (clip0 (fl_sub (fl_mul (available_max market mg t) (p_nom mg)) (market_p market k t)))
       (p_nom mg)"
  using assms find_name_eq[OF assms]
  by (simp add: up_frame_def at_frame_frame_op_series at_frame_frame_map at_frame_frame_op_frame
      at_frame_as_dense at_series_static_series available_max_def market_p_def)

lemma at_frame_down_frame:
  assumes "find (\<lambda>x. gen_name x = k) (generators market) = Some mg"
  shows "at_frame (down_frame market) k t = fl_div (fl_uminus (market_p market k t)) (p_nom mg)"
  using assms
  by (simp add: down_frame_def at_frame_frame_op_series at_frame_frame_map
      at_series_static_series market_p_def)

lemma at_frame_realized_ratio:
  assumes "find (\<lambda>x. gen_name x = k) (generators market) = Some mg"
  shows "at_frame (realized_ratio market) k t = fillna0 (fl_div (market_p market k t) (p_nom mg))"
proof -
  have "k \<in> fst ` set (frame_op_series fl_div (p_t (generators_t market))
          (static_series p_nom (generators market)))"
    using find_name_mem[OF assms] by (simp add: fst_set_frame_op_series fst_set_static_series)
  then show ?thesis
    using assms
    by (simp add: realized_ratio_def at_frame_def[of "frame_map _ _"] map_of_frame_map
        map_of_eq_at_frame at_frame_frame_op_series at_series_static_series market_p_def)
qed

lemma up_frame_column:
  assumes "find (\<lambda>x. gen_name x = k) (generators market) = Some mg"
  shows "map_of (up_frame market) k =
     Some (\<lambda>t. fl_div (clip0 (fl_sub (fl_mul (available_max market mg t) (p_nom mg))
                                (market_p market k t))) (p_nom mg))"
proof -
  have "k \<in> fst ` set (up_frame market)"
    using find_name_mem[OF assms] by (simp add: fst_set_up_frame)
  then have "map_of (up_frame market) k = Some (at_frame (up_frame market) k)"
    by (rule map_of_eq_at_frame)
  moreover have "at_frame (up_frame market) k =
     (\<lambda>t. fl_div (clip0 (fl_sub (fl_mul (available_max market mg t) (p_nom mg))
                                (market_p market k t))) (p_nom mg))"
    by (rule ext) (rule at_frame_up_frame[OF assms])
  ultimately show ?thesis by simp
qed

lemma down_frame_column:
  assumes "find (\<lambda>x. gen_name x = k) (generators market) = Some mg"
  shows "map_of (down_frame market) k =
     Some (\<lambda>t. fl_div (fl_uminus (market_p market k t)) (p_nom mg))"
proof -
  have "k \<in> fst ` set (down_frame market)"
    using find_name_mem[OF assms] by (simp add: fst_set_down_frame)
  then have "map_of (down_frame market) k = Some (at_frame (down_frame market) k)"
    by (rule map_of_eq_at_frame)
  moreover have "at_frame (down_frame market) k =
     (\<lambda>t. fl_div (fl_uminus (market_p market k t)) (p_nom mg))"
    by (rule ext) (rule at_frame_down_frame[OF assms])
  ultimately show ?thesis by simp
qed

lemma realized_ratio_column:
  assumes "find (\<lambda>x. gen_name x = k) (generators market) = Some mg"
  shows "map_of (realized_ratio market) k =
     Some (\<lambda>t. fillna0 (fl_div (market_p market k t) (p_nom mg)))"
proof -
  have "k \<in> fst ` set (realized_ratio market)"
    using find_name_mem[OF assms] by (simp add: fst_set_realized_ratio)
  then have "map_of (realized_ratio market) k = Some (at_frame (realized_ratio market) k)"
    by (rule map_of_eq_at_frame)
  moreover have "at_frame (realized_ratio market) k =
     (\<lambda>t. fillna0 (fl_div (market_p market k t) (p_nom mg)))"
    by (rule ext) (rule at_frame_realized_ratio[OF assms])
  ultimately show ?thesis by simp
qed

lemma ramp_names_not_in_ratio:
  assumes "fresh_names (map gen_name (generators nodal))"
      and "same_generators nodal market"
      and "k \<in> gen_name ` set (generators nodal)"
  shows "map_of (realized_ratio market) (ramp_up k) = None"
    and "map_of (realized_ratio market) (ramp_down k) = None"
proof -
  have cols: "fst ` set (realized_ratio market) \<subseteq> gen_name ` set (generators nodal)"
    using same_generators_columns[OF assms(2)] by (auto simp: fst_set_realized_ratio)
  have "ramp_up k \<notin> gen_name ` set (generators nodal)"
       "ramp_down k \<notin> gen_name ` set (generators nodal)"
    using fresh_ramp_notin[OF assms(1), of k] assms(3) by simp_all
  with cols show "map_of (realized_ratio market) (ramp_up k) = None"
    and "map_of (realized_ratio market) (ramp_down k) = None"
    by (auto intro: map_of_notin)
qed

lemma renamed_up_no_ramp_down:
  "map_of (rename_columns ramp_up df) (ramp_down k) = None"
proof (rule map_of_notin)
  show "ramp_down k \<notin> fst ` set (rename_columns ramp_up df)"
    unfolding fst_set_rename_columns using ramp_up_neq_ramp_down by (metis imageE)
qed

lemma renamed_down_no_ramp_up:
  "map_of (rename_columns ramp_down df) (ramp_up k) = None"
proof (rule map_of_notin)
  show "ramp_up k \<notin> fst ` set (rename_columns ramp_down df)"
    unfolding fst_set_rename_columns using ramp_up_neq_ramp_down by (metis imageE)
qed

lemma renamed_no_original:
  assumes "fresh_names (map gen_name (generators nodal))"
      and "fst ` set df \<subseteq> gen_name ` set (generators nodal)"
      and "k \<in> gen_name ` set (generators nodal)"
  shows "map_of (rename_columns ramp_up df) k = None"
    and "map_of (rename_columns ramp_down df) k = None"
proof -
  have "k \<notin> ramp_up ` gen_name ` set (generators nodal)"
       "k \<notin> ramp_down ` gen_name ` set (generators nodal)"
    using fresh_not_ramp[OF assms(1), of k] assms(3) by simp_all
  moreover have "fst ` set (rename_columns ramp_up df)
      \<subseteq> ramp_up ` gen_name ` set (generators nodal)"
    and "fst ` set (rename_columns ramp_down df)
      \<subseteq> ramp_down ` gen_name ` set (generators nodal)"
    unfolding fst_set_rename_columns using assms(2) by (rule image_mono)+
  ultimately have "k \<notin> fst ` set (rename_columns ramp_up df)"
    and "k \<notin> fst ` set (rename_columns ramp_down df)"
    by blast+
  then show "map_of (rename_columns ramp_up df) k = None"
    and "map_of (rename_columns ramp_down df) k = None"
    by (simp_all add: map_of_notin)
qed

lemma fl_up_nonneg:
  "0 < r \<Longrightarrow> fl_ge0 (fl_div (clip0 (fl_sub (fl_mul (Fin a) (Fin r)) (Fin q))) (Fin r))"
  by simp

lemma fl_up_nonneg_or_nan:
  "0 < r \<Longrightarrow> fl_div (clip0 x) (Fin r) = NaN \<or> fl_ge0 (fl_div (clip0 x) (Fin r))"
  by (cases x) auto

lemma ex_fresh: "fresh_names [''g1'']"
  by (simp add: fresh_names_def ramp_up_def ramp_down_def)

lemma ex_find:
  "find (\<lambda>x. gen_name x = ''g1'') (generators (ex_network [ex_gen ''g1'' pn pm] p))
     = Some (ex_gen ''g1'' pn pm)"
  by (simp add: ex_network_def ex_gen_def)

lemma ex_same:
  "same_generators (ex_network [ex_gen ''g1'' pn pm] [])
     (ex_network [ex_gen ''g1'' pn' pm'] [(''g1'', c)])"
  by (simp add: same_generators_def ex_network_def ex_gen_def)

lemma ex_names: "map gen_name (generators (ex_network [ex_gen ''g1'' pn pm] p)) = [''g1'']"
  by (simp add: ex_network_def ex_gen_def)

lemma fl_down_nonpos: "0 < r \<Longrightarrow> 0 \<le> q \<Longrightarrow> fl_le0 (fl_div (fl_uminus (Fin q)) (Fin r))"
  by (simp add: divide_nonpos_pos)

lemma fresh_distinct_all:
  assumes "fresh_names ns"
  shows "distinct (ns @ map ramp_up ns @ map ramp_down ns)"
proof -
  have "distinct ns"
    using assms by (simp add: fresh_names_def)
  moreover have "distinct (map ramp_up ns)" "distinct (map ramp_down ns)"
    using \<open>distinct ns\<close> by (simp_all add: distinct_map_inj inj_ramp_up inj_ramp_down)
  moreover have "set ns \<inter> set (map ramp_up ns) = {}" "set ns \<inter> set (map ramp_down ns) = {}"
    using assms by (rule fresh_up_disjoint, rule fresh_down_disjoint)
  moreover have "set (map ramp_up ns) \<inter> set (map ramp_down ns) = {}"
    using ramp_up_neq_ramp_down by auto
  ultimately show ?thesis
    by auto
qed

lemma original_bounds:
  assumes "fresh_names (map gen_name (generators nodal))"
      and "same_generators nodal market"
      and "find (\<lambda>x. gen_name x = g) (generators nodal) = Some og"
      and "find (\<lambda>x. gen_name x = g) (generators market) = Some mg"
  shows "map_of (dense_p_min_pu (redispatch_generators nodal market)) g =
           Some (\<lambda>t. fillna0 (fl_div (market_p market g t) (p_nom mg)))"
    and "map_of (dense_p_max_pu (redispatch_generators nodal market)) g =
           Some (\<lambda>t. fillna0 (fl_div (market_p market g t) (p_nom mg)))"
proof -
  let ?rd = "redispatch_generators nodal market"
  have mem: "g \<in> gen_name ` set (generators nodal)"
    by (rule find_name_mem[OF assms(3)])
  have sub: "fst ` set (up_frame market) \<subseteq> gen_name ` set (generators nodal)"
       "fst ` set (down_frame market) \<subseteq> gen_name ` set (generators nodal)"
    using same_generators_columns[OF assms(2)]
    by (auto simp: fst_set_up_frame fst_set_down_frame)
  have cmin: "map_of (p_min_pu_t (generators_t ?rd)) g =
      Some (\<lambda>t. fillna0 (fl_div (market_p market g t) (p_nom mg)))"
    by (simp add: p_min_pu_t_redispatch map_of_import_series
        renamed_no_original(2)[OF assms(1) sub(2) mem] realized_ratio_column[OF assms(4)])
  have cmax: "map_of (p_max_pu_t (generators_t ?rd)) g =
      Some (\<lambda>t. fillna0 (fl_div (market_p market g t) (p_nom mg)))"
    by (simp add: p_max_pu_t_redispatch map_of_import_series
        renamed_no_original(1)[OF assms(1) sub(1) mem] realized_ratio_column[OF assms(4)])
  show "map_of (dense_p_min_pu ?rd) g =
           Some (\<lambda>t. fillna0 (fl_div (market_p market g t) (p_nom mg)))"
    by (simp add: dense_p_min_pu_def map_of_as_dense find_redispatch_orig[OF assms(1,3)] cmin)
  show "map_of (dense_p_max_pu ?rd) g =
           Some (\<lambda>t. fillna0 (fl_div (market_p market g t) (p_nom mg)))"
    by (simp add: dense_p_max_pu_def map_of_as_dense find_redispatch_orig[OF assms(1,3)] cmax)
qed

lemmas split_defs = dense_p_min_pu_def dense_p_max_pu_def redispatch_generators_def
  realized_ratio_def up_frame_def down_frame_def g_up_def g_down_def import_components_def
  import_series_def rename_columns_def frame_map_def frame_op_series_def frame_op_frame_def
  union_labels_def as_dense_def static_series_def at_frame_def at_series_def
  ramp_up_def ramp_down_def ex_network_def ex_gen_def

lemma fresh_up_disj: "fresh_up ns \<Longrightarrow> set ns \<inter> set (map ramp_up ns) = {}"
  by (auto simp: fresh_up_def list_all_iff)

lemma fresh_down_disj: "fresh_down ns \<Longrightarrow> set ns \<inter> set (map ramp_down ns) = {}"
  by (auto simp: fresh_down_def list_all_iff)

lemma generators_redispatch_imports:
  "generators (redispatch_generators nodal market) =
     import_components gen_name
       (import_components gen_name (generators nodal) (g_up (generators nodal)))
       (g_down (generators nodal))"
  by (simp add: redispatch_generators_def Let_def)

lemma find_import_keep:
  "find P old = Some x \<Longrightarrow> find P (import_components nm old new) = Some x"
  by (simp add: import_components_def find_app)

lemma fresh_up_import:
  assumes "fresh_up (map gen_name gens)"
  shows "import_components gen_name gens (g_up gens) = gens @ g_up gens"
proof -
  have d: "distinct (map gen_name gens)"
    using assms by (simp add: fresh_up_def)
  have "distinct (map ramp_up (map gen_name gens))"
    using d by (rule distinct_map_inj[OF inj_ramp_up])
  moreover have "set (map gen_name gens) \<inter> set (map ramp_up (map gen_name gens)) = {}"
    using assms by (rule fresh_up_disj)
  ultimately show ?thesis
    using d by (simp add: import_components_def names_g_up)
qed

lemma find_up_created:
  assumes "fresh_up (map gen_name (generators nodal))"
      and "find (\<lambda>x. gen_name x = k) (generators nodal) = Some og"
  shows "find (\<lambda>x. gen_name x = ramp_up k) (generators (redispatch_generators nodal market))
           = Some (og\<lparr>gen_name := ramp_up (gen_name og), p_max_pu := Fin 1\<rparr>)"
proof -
  have "k \<in> set (map gen_name (generators nodal))"
    using find_name_mem[OF assms(2)] by simp
  then have "ramp_up k \<notin> gen_name ` set (generators nodal)"
    using assms(1) by (auto simp: fresh_up_def list_all_iff)
  then have "find (\<lambda>x. gen_name x = ramp_up k) (generators nodal @ g_up (generators nodal))
      = Some (og\<lparr>gen_name := ramp_up (gen_name og), p_max_pu := Fin 1\<rparr>)"
    using assms(2) by (simp add: find_app find_name_None find_g_up)
  then show ?thesis
    by (simp only: generators_redispatch_imports fresh_up_import[OF assms(1)] find_import_keep)
qed

lemma names_import_up_subset:
  "set (map gen_name (import_components gen_name gens (g_up gens)))
     \<subseteq> set (map gen_name gens) \<union> set (map ramp_up (map gen_name gens))"
  by (auto simp: import_components_def g_up_def)

lemma fresh_down_import:
  assumes "fresh_down (map gen_name gens)"
  shows "import_components gen_name (import_components gen_name gens (g_up gens)) (g_down gens)
           = import_components gen_name gens (g_up gens) @ g_down gens"
proof -
  let ?g1 = "import_components gen_name gens (g_up gens)"
  have d: "distinct (map gen_name gens)"
    using assms by (simp add: fresh_down_def)
  have d1: "distinct (map gen_name ?g1)"
    using d by (simp add: import_components_def)
  have dd: "distinct (map ramp_down (map gen_name gens))"
    using d by (rule distinct_map_inj[OF inj_ramp_down])
  have a: "set (map gen_name gens) \<inter> set (map ramp_down (map gen_name gens)) = {}"
    using assms by (rule fresh_down_disj)
  have b: "set (map ramp_up (map gen_name gens)) \<inter> set (map ramp_down (map gen_name gens)) = {}"
    using ramp_up_neq_ramp_down by auto
  have "set (map gen_name ?g1)
      \<subseteq> set (map gen_name gens) \<union> set (map ramp_up (map gen_name gens))"
    by (rule names_import_up_subset)
  with a b have c: "set (map gen_name ?g1) \<inter> set (map ramp_down (map gen_name gens)) = {}"
    by blast
  have "distinct (map gen_name (?g1 @ g_down gens))"
    using d1 dd c by (simp add: names_g_down)
  then show ?thesis
    by (simp only: import_components_def if_True)
qed

lemma find_down_created:
  assumes "fresh_down (map gen_name (generators nodal))"
      and "find (\<lambda>x. gen_name x = k) (generators nodal) = Some og"
  shows "find (\<lambda>x. gen_name x = ramp_down k) (generators (redispatch_generators nodal market))
           = Some (og\<lparr>gen_name := ramp_down (gen_name og), p_min_pu := Fin 0, p_max_pu := Fin 0\<rparr>)"
proof -
  let ?gens = "generators nodal"
  let ?g1 = "import_components gen_name ?gens (g_up ?gens)"
  have "k \<in> set (map gen_name ?gens)"
    using find_name_mem[OF assms(2)] by simp
  then have "ramp_down k \<notin> gen_name ` set ?gens"
    using assms(1) by (auto simp: fresh_down_def list_all_iff)
  moreover have "ramp_down k \<notin> set (map ramp_up (map gen_name ?gens))"
    using ramp_up_neq_ramp_down by (metis imageE set_map)
  ultimately have "ramp_down k \<notin> set (map gen_name ?g1)"
    using names_import_up_subset[of ?gens] by auto
  then have "ramp_down k \<notin> gen_name ` set ?g1"
    by simp
  then have "find (\<lambda>x. gen_name x = ramp_down k) ?g1 = None"
    by (rule find_name_None)
  then have "find (\<lambda>x. gen_name x = ramp_down k) (?g1 @ g_down ?gens)
      = Some (og\<lparr>gen_name := ramp_down (gen_name og), p_min_pu := Fin 0, p_max_pu := Fin 0\<rparr>)"
    using assms(2) by (simp add: find_app find_g_down)
  then show ?thesis
    by (simp only: generators_redispatch_imports fresh_down_import[OF assms(1)])
qed

lemma ramp_down_not_in_ratio:
  assumes "fresh_down (map gen_name (generators nodal))"
      and "same_generators nodal market"
      and "k \<in> gen_name ` set (generators nodal)"
  shows "map_of (realized_ratio market) (ramp_down k) = None"
proof -
  have cols: "fst ` set (realized_ratio market) \<subseteq> gen_name ` set (generators nodal)"
    using same_generators_columns[OF assms(2)] by (auto simp: fst_set_realized_ratio)
  have "ramp_down k \<notin> gen_name ` set (generators nodal)"
    using assms(1,3) by (auto simp: fresh_down_def list_all_iff)
  with cols show ?thesis
    by (auto intro: map_of_notin)
qed

lemma ex_fresh_up: "fresh_up [''g1'']"
  by (simp add: fresh_up_def ramp_up_def)

lemma ex_fresh_down: "fresh_down [''g1'']"
  by (simp add: fresh_down_def ramp_down_def)

lemma ramp_up_p_min_pu_static:
  assumes "fresh_names (map gen_name (generators nodal))"
      and "same_generators nodal market"
      and "find (\<lambda>x. gen_name x = g) (generators nodal) = Some og"
  shows "map_of (dense_p_min_pu (redispatch_generators nodal market)) (ramp_up g) =
           Some (\<lambda>t. p_min_pu og)"
proof -
  let ?rd = "redispatch_generators nodal market"
  have mem: "g \<in> gen_name ` set (generators nodal)"
    by (rule find_name_mem[OF assms(3)])
  have cmin: "map_of (p_min_pu_t (generators_t ?rd)) (ramp_up g) = None"
    by (simp add: p_min_pu_t_redispatch map_of_import_series renamed_down_no_ramp_up
        ramp_names_not_in_ratio(1)[OF assms(1,2) mem])
  show ?thesis
    by (simp add: dense_p_min_pu_def map_of_as_dense find_redispatch_up[OF assms(1,3)] cmin)
qed

section \<open>The bounds of the redispatch generators\<close>

text \<open>
  Claim C2, amended. Let the generator names be unique and no generator of the model be
  named like one of them followed by \<^verbatim>\<open>" ramp up"\<close> (the ramp-up generators are then
  created), and let \<open>g\<close> be a generator of the model and of the market network. At every
  snapshot \<open>t\<close> the bound \<^verbatim>\<open>p_max_pu\<close> of the ramp-up generator of \<open>g\<close> in the
  redispatch network is
  \<open>max(0, available_max[g,t] * p_nom[g] - market.p[g,t]) / p_nom[g]\<close> in the arithmetic
  of the program, with the market network's own upper dispatch ratio as
  \<open>available_max\<close> and NaN for a dispatch the market network does not hold. For a finite
  \<open>p_nom[g] > 0\<close> the bound is \<open>\<ge> 0\<close> at every snapshot at which availability and
  dispatch are finite, and at every snapshot it is NaN or \<open>\<ge> 0\<close>.
\<close>

theorem ramp_up_p_max_pu:
  assumes "fresh_up (map gen_name (generators nodal))"
      and "find (\<lambda>x. gen_name x = g) (generators nodal) = Some og"
      and "find (\<lambda>x. gen_name x = g) (generators market) = Some mg"
  shows "map_of (dense_p_max_pu (redispatch_generators nodal market)) (ramp_up g) =
           Some (\<lambda>t. fl_div (clip0 (fl_sub (fl_mul (available_max market mg t) (p_nom mg))
                                      (market_p market g t))) (p_nom mg))
       \<and> (\<forall>t r a q. p_nom mg = Fin r \<and> 0 < r \<and> available_max market mg t = Fin a
                    \<and> market_p market g t = Fin q
            \<longrightarrow> fl_ge0 (at_frame (dense_p_max_pu (redispatch_generators nodal market))
                          (ramp_up g) t))
       \<and> (\<forall>t r. p_nom mg = Fin r \<and> 0 < r
            \<longrightarrow> at_frame (dense_p_max_pu (redispatch_generators nodal market)) (ramp_up g) t = NaN
                \<or> fl_ge0 (at_frame (dense_p_max_pu (redispatch_generators nodal market))
                            (ramp_up g) t))"
proof -
  let ?rd = "redispatch_generators nodal market"
  let ?v = "\<lambda>t. fl_div (clip0 (fl_sub (fl_mul (available_max market mg t) (p_nom mg))
                                      (market_p market g t))) (p_nom mg)"
  have col: "map_of (p_max_pu_t (generators_t ?rd)) (ramp_up g) = Some ?v"
    by (simp add: p_max_pu_t_redispatch map_of_import_series
        map_of_rename_columns[OF inj_ramp_up] up_frame_column[OF assms(3)])
  have eq: "map_of (dense_p_max_pu ?rd) (ramp_up g) = Some ?v"
    by (simp add: dense_p_max_pu_def map_of_as_dense find_up_created[OF assms(1,2)] col)
  then have at: "\<And>t. at_frame (dense_p_max_pu ?rd) (ramp_up g) t = ?v t"
    by (simp add: at_frame_def)
  show ?thesis
    using eq by (auto simp: at fl_up_nonneg_or_nan)
qed

theorem ramp_up_p_max_pu_witness:
  "at_frame (dense_p_max_pu (redispatch_generators
       (ex_network [ex_gen ''g1'' (Fin 100) (Fin 0)] [])
       (ex_network [ex_gen ''g1'' (Fin 100) (Fin 0)] [(''g1'', \<lambda>t. Fin 40)])))
     ''g1 ramp up'' 0 = Fin (3 / 5)
   \<and> fl_ge0 (at_frame (dense_p_max_pu (redispatch_generators
       (ex_network [ex_gen ''g1'' (Fin 100) (Fin 0)] [])
       (ex_network [ex_gen ''g1'' (Fin 100) (Fin 0)] [(''g1'', \<lambda>t. Fin 40)])))
     ''g1 ramp up'' 0)"
proof -
  let ?n = "ex_network [ex_gen ''g1'' (Fin 100) (Fin 0)] []"
  let ?m = "ex_network [ex_gen ''g1'' (Fin 100) (Fin 0)] [(''g1'', \<lambda>t. Fin 40)]"
  have f: "fresh_up (map gen_name (generators ?n))"
    by (simp add: ex_names ex_fresh_up)
  have fm: "find (\<lambda>x. gen_name x = ''g1'') (generators ?m) = Some (ex_gen ''g1'' (Fin 100) (Fin 0))"
    by (rule ex_find)
  note th = ramp_up_p_max_pu[OF f ex_find fm]
  have pn: "p_nom (ex_gen ''g1'' (Fin 100) (Fin 0)) = Fin 100"
    by (simp add: ex_gen_def)
  have mp: "market_p ?m ''g1'' 0 = Fin 40"
    by (simp add: market_p_def at_frame_def ex_network_def)
  have av: "available_max ?m (ex_gen ''g1'' (Fin 100) (Fin 0)) 0 = Fin 1"
    by (simp add: available_max_def ex_network_def ex_gen_def)
  have a: "at_frame (dense_p_max_pu (redispatch_generators ?n ?m)) ''g1 ramp up'' 0 = Fin (3 / 5)"
    using th[THEN conjunct1]
    by (simp add: at_frame_def[of "dense_p_max_pu _"] ramp_up_def pn mp av)
  have b: "fl_ge0 (at_frame (dense_p_max_pu (redispatch_generators ?n ?m)) ''g1 ramp up'' 0)"
    using th[THEN conjunct2, THEN conjunct1, THEN spec[of _ 0], THEN spec[of _ 100],
        THEN spec[of _ 1], THEN spec[of _ 40]] pn mp av
    by (simp add: ramp_up_def)
  from a b show ?thesis by simp
qed

text \<open>
  The bound is not \<open>\<ge> 0\<close> for every generator with \<open>p_nom > 0\<close>: for a market network
  without dispatch (its solve returned without a solution) the bound of the ramp-up
  generator of a generator with \<open>p_nom = 100\<close> is NaN. And not every generator gets a
  ramp-up generator: with the generators \<^verbatim>\<open>g1\<close> and \<^verbatim>\<open>g1 ramp up\<close> none is added,
  and there is no generator \<^verbatim>\<open>g1 ramp up ramp up\<close>.
\<close>

theorem ramp_up_p_max_pu_counterexample:
  "p_nom (ex_gen ''g1'' (Fin 100) (Fin 0)) = Fin 100
   \<and> at_frame (dense_p_max_pu (redispatch_generators
       (ex_network [ex_gen ''g1'' (Fin 100) (Fin 0)] [])
       (ex_network [ex_gen ''g1'' (Fin 100) (Fin 0)] [])))
     ''g1 ramp up'' 0 = NaN
   \<and> \<not> fl_ge0 (at_frame (dense_p_max_pu (redispatch_generators
       (ex_network [ex_gen ''g1'' (Fin 100) (Fin 0)] [])
       (ex_network [ex_gen ''g1'' (Fin 100) (Fin 0)] [])))
     ''g1 ramp up'' 0)
   \<and> ''g1 ramp up ramp up'' \<notin> set (map gen_name (generators (redispatch_generators
       (ex_network [ex_gen ''g1'' (Fin 100) (Fin 0), ex_gen ''g1 ramp up'' (Fin 100) (Fin 0)] [])
       (ex_network [ex_gen ''g1'' (Fin 100) (Fin 0), ex_gen ''g1 ramp up'' (Fin 100) (Fin 0)]
          [(''g1'', \<lambda>t. Fin 40), (''g1 ramp up'', \<lambda>t. Fin 40)]))))"
  by (simp add: split_defs)

text \<open>
  Claim C3, amended. Let the generator names be unique and no generator of the model be
  named like one of them followed by \<^verbatim>\<open>" ramp down"\<close> (the ramp-down generators are
  then created), let the market network have the generators of the model, with dispatch
  columns for these only, and let \<open>g\<close> be one of them. The upper bound \<^verbatim>\<open>p_max_pu\<close> of
  the ramp-down generator of \<open>g\<close> is 0 at every snapshot. At every snapshot \<open>t\<close> at which
  \<open>p_nom[g] > 0\<close> and the market dispatch \<open>market.p[g,t]\<close> is not negative (both
  finite), its lower bound \<^verbatim>\<open>p_min_pu\<close> is \<open>- market.p[g,t] / p_nom[g]\<close>, which is
  \<open>\<le> 0\<close>.
\<close>

theorem ramp_down_bounds:
  assumes "fresh_down (map gen_name (generators nodal))"
      and "same_generators nodal market"
      and "find (\<lambda>x. gen_name x = g) (generators nodal) = Some og"
      and "find (\<lambda>x. gen_name x = g) (generators market) = Some mg"
  shows "map_of (dense_p_max_pu (redispatch_generators nodal market)) (ramp_down g) =
           Some (\<lambda>t. Fin 0)
       \<and> (\<forall>t r q. p_nom mg = Fin r \<and> 0 < r \<and> market_p market g t = Fin q \<and> 0 \<le> q
            \<longrightarrow> at_frame (dense_p_min_pu (redispatch_generators nodal market)) (ramp_down g) t
                  = Fin (- q / r)
                \<and> fl_le0 (at_frame (dense_p_min_pu (redispatch_generators nodal market))
                            (ramp_down g) t))"
proof -
  let ?rd = "redispatch_generators nodal market"
  let ?v = "\<lambda>t. fl_div (fl_uminus (market_p market g t)) (p_nom mg)"
  have mem: "g \<in> gen_name ` set (generators nodal)"
    by (rule find_name_mem[OF assms(3)])
  have cmin: "map_of (p_min_pu_t (generators_t ?rd)) (ramp_down g) = Some ?v"
    by (simp add: p_min_pu_t_redispatch map_of_import_series
        map_of_rename_columns[OF inj_ramp_down] down_frame_column[OF assms(4)])
  have cmax: "map_of (p_max_pu_t (generators_t ?rd)) (ramp_down g) = None"
    by (simp add: p_max_pu_t_redispatch map_of_import_series renamed_up_no_ramp_down
        ramp_down_not_in_ratio[OF assms(1,2) mem])
  have emin: "map_of (dense_p_min_pu ?rd) (ramp_down g) = Some ?v"
    by (simp add: dense_p_min_pu_def map_of_as_dense find_down_created[OF assms(1,3)] cmin)
  have emax: "map_of (dense_p_max_pu ?rd) (ramp_down g) = Some (\<lambda>t. Fin 0)"
    by (simp add: dense_p_max_pu_def map_of_as_dense find_down_created[OF assms(1,3)] cmax)
  have at: "\<And>t. at_frame (dense_p_min_pu ?rd) (ramp_down g) t = ?v t"
    using emin by (simp add: at_frame_def)
  show ?thesis
    using emax by (auto simp: at divide_nonpos_pos)
qed

theorem ramp_down_bounds_witness:
  "at_frame (dense_p_max_pu (redispatch_generators
       (ex_network [ex_gen ''g1'' (Fin 100) (Fin 0)] [])
       (ex_network [ex_gen ''g1'' (Fin 100) (Fin 0)] [(''g1'', \<lambda>t. Fin 40)])))
     ''g1 ramp down'' 0 = Fin 0
   \<and> at_frame (dense_p_min_pu (redispatch_generators
       (ex_network [ex_gen ''g1'' (Fin 100) (Fin 0)] [])
       (ex_network [ex_gen ''g1'' (Fin 100) (Fin 0)] [(''g1'', \<lambda>t. Fin 40)])))
     ''g1 ramp down'' 0 = Fin (- (2 / 5))
   \<and> fl_le0 (at_frame (dense_p_min_pu (redispatch_generators
       (ex_network [ex_gen ''g1'' (Fin 100) (Fin 0)] [])
       (ex_network [ex_gen ''g1'' (Fin 100) (Fin 0)] [(''g1'', \<lambda>t. Fin 40)])))
     ''g1 ramp down'' 0)"
proof -
  let ?n = "ex_network [ex_gen ''g1'' (Fin 100) (Fin 0)] []"
  let ?m = "ex_network [ex_gen ''g1'' (Fin 100) (Fin 0)] [(''g1'', \<lambda>t. Fin 40)]"
  have f: "fresh_down (map gen_name (generators ?n))"
    by (simp add: ex_names ex_fresh_down)
  note th = ramp_down_bounds[OF f ex_same ex_find ex_find]
  have pn: "p_nom (ex_gen ''g1'' (Fin 100) (Fin 0)) = Fin 100"
    by (simp add: ex_gen_def)
  have mp: "market_p ?m ''g1'' 0 = Fin 40"
    by (simp add: market_p_def at_frame_def ex_network_def)
  have b: "at_frame (dense_p_max_pu (redispatch_generators ?n ?m)) ''g1 ramp down'' 0 = Fin 0"
    using th[THEN conjunct1] by (simp add: at_frame_def ramp_down_def)
  have c: "at_frame (dense_p_min_pu (redispatch_generators ?n ?m)) ''g1 ramp down'' 0
        = Fin (- (2 / 5))
      \<and> fl_le0 (at_frame (dense_p_min_pu (redispatch_generators ?n ?m)) ''g1 ramp down'' 0)"
    using th[THEN conjunct2, THEN spec[of _ 0], THEN spec[of _ 100], THEN spec[of _ 40]] pn mp
    by (simp add: ramp_down_def)
  from b c show ?thesis by simp
qed

text \<open>
  The lower bound is not \<open>\<le> 0\<close> at every snapshot: a generator of capacity 10 that the
  market dispatches at \<open>-5\<close> (its \<^verbatim>\<open>p_min_pu\<close> is \<open>-1\<close>) gets the lower bound
  \<open>1/2\<close> on its ramp-down generator, above the upper bound 0. And with the generators
  \<^verbatim>\<open>g1\<close> and \<^verbatim>\<open>g1 ramp down\<close> no ramp-down generator is added: the generator named
  \<^verbatim>\<open>g1 ramp down\<close> is the original one, with the upper bound \<open>2/5\<close>.
\<close>

theorem ramp_down_bounds_counterexample:
  "at_frame (dense_p_min_pu (redispatch_generators
       (ex_network [ex_gen ''g1'' (Fin 10) (Fin (- 1))] [])
       (ex_network [ex_gen ''g1'' (Fin 10) (Fin (- 1))] [(''g1'', \<lambda>t. Fin (- 5))])))
     ''g1 ramp down'' 0 = Fin (1 / 2)
   \<and> \<not> fl_le0 (at_frame (dense_p_min_pu (redispatch_generators
       (ex_network [ex_gen ''g1'' (Fin 10) (Fin (- 1))] [])
       (ex_network [ex_gen ''g1'' (Fin 10) (Fin (- 1))] [(''g1'', \<lambda>t. Fin (- 5))])))
     ''g1 ramp down'' 0)
   \<and> at_frame (dense_p_max_pu (redispatch_generators
       (ex_network [ex_gen ''g1'' (Fin 100) (Fin 0), ex_gen ''g1 ramp down'' (Fin 100) (Fin 0)] [])
       (ex_network [ex_gen ''g1'' (Fin 100) (Fin 0), ex_gen ''g1 ramp down'' (Fin 100) (Fin 0)]
          [(''g1'', \<lambda>t. Fin 40), (''g1 ramp down'', \<lambda>t. Fin 40)])))
     ''g1 ramp down'' 0 = Fin (2 / 5)"
  by (simp add: split_defs)

text \<open>
  Claim C4. The lower bound of a ramp-up generator is claimed to be 0 whatever the static
  \<^verbatim>\<open>p_min_pu\<close> of the original generator is. The program passes the static columns of
  the original to \<^verbatim>\<open>madd\<close> without \<^verbatim>\<open>p_max_pu\<close> only, so that the ramp-up generator
  has the static \<^verbatim>\<open>p_min_pu\<close> of the original (lemma \<open>ramp_up_p_min_pu_static\<close>). For
  an original of capacity 100 with the static \<^verbatim>\<open>p_min_pu\<close> \<open>1/2\<close> that the market
  dispatches at 60, the ramp-up generator has the lower bound \<open>1/2\<close>, not 0, above its
  upper bound \<open>2/5\<close>.
\<close>

theorem ramp_up_p_min_pu_inherited:
  "p_min_pu (ex_gen ''g1'' (Fin 100) (Fin (1 / 2))) = Fin (1 / 2)
   \<and> at_frame (dense_p_min_pu (redispatch_generators
       (ex_network [ex_gen ''g1'' (Fin 100) (Fin (1 / 2))] [])
       (ex_network [ex_gen ''g1'' (Fin 100) (Fin (1 / 2))] [(''g1'', \<lambda>t. Fin 60)])))
     ''g1 ramp up'' 0 = Fin (1 / 2)
   \<and> at_frame (dense_p_max_pu (redispatch_generators
       (ex_network [ex_gen ''g1'' (Fin 100) (Fin (1 / 2))] [])
       (ex_network [ex_gen ''g1'' (Fin 100) (Fin (1 / 2))] [(''g1'', \<lambda>t. Fin 60)])))
     ''g1 ramp up'' 0 = Fin (2 / 5)"
  by (simp add: split_defs)

text \<open>
  Claim C5, amended. When the generator names are unique and no generator of the model
  is named like another one followed by \<^verbatim>\<open>" ramp up"\<close> or \<^verbatim>\<open>" ramp down"\<close>, the
  generators after the splitting are the original ones, then one named
  \<open>g.name + " ramp up"\<close> and then one named \<open>g.name + " ramp down"\<close> for every original
  \<open>g\<close>, all names distinct: three times as many as before.
\<close>

theorem generator_count_tripled:
  assumes "fresh_names (map gen_name (generators nodal))"
  shows "map gen_name (generators (redispatch_generators nodal market)) =
           map gen_name (generators nodal)
           @ map ramp_up (map gen_name (generators nodal))
           @ map ramp_down (map gen_name (generators nodal))
       \<and> length (generators (redispatch_generators nodal market)) =
           3 * length (generators nodal)
       \<and> distinct (map gen_name (generators (redispatch_generators nodal market)))"
proof -
  have g: "generators (redispatch_generators nodal market) =
      generators nodal @ g_up (generators nodal) @ g_down (generators nodal)"
    by (rule generators_redispatch[OF assms])
  have n: "map gen_name (generators (redispatch_generators nodal market)) =
           map gen_name (generators nodal)
           @ map ramp_up (map gen_name (generators nodal))
           @ map ramp_down (map gen_name (generators nodal))"
    by (simp only: g map_append names_g_up names_g_down)
  have l: "length (generators (redispatch_generators nodal market)) =
           3 * length (generators nodal)"
    by (simp add: g g_up_def g_down_def)
  show ?thesis
    using fresh_distinct_all[OF assms] n l by simp
qed

theorem generator_count_tripled_witness:
  "map gen_name (generators (redispatch_generators
       (ex_network [ex_gen ''g1'' (Fin 100) (Fin 0)] [])
       (ex_network [ex_gen ''g1'' (Fin 100) (Fin 0)] [(''g1'', \<lambda>t. Fin 40)])))
     = [''g1'', ''g1 ramp up'', ''g1 ramp down'']
   \<and> length (generators (redispatch_generators
       (ex_network [ex_gen ''g1'' (Fin 100) (Fin 0)] [])
       (ex_network [ex_gen ''g1'' (Fin 100) (Fin 0)] [(''g1'', \<lambda>t. Fin 40)]))) = 3"
proof -
  let ?n = "ex_network [ex_gen ''g1'' (Fin 100) (Fin 0)] []"
  let ?m = "ex_network [ex_gen ''g1'' (Fin 100) (Fin 0)] [(''g1'', \<lambda>t. Fin 40)]"
  have f: "fresh_names (map gen_name (generators ?n))"
    by (simp add: ex_names ex_fresh)
  have l: "length (generators ?n) = 1"
    by (simp add: ex_network_def)
  show ?thesis
    using generator_count_tripled[OF f, of ?m]
    by (simp add: ex_names l ramp_up_def ramp_down_def)
qed

text \<open>
  The count is not tripled for every model: with the generators \<^verbatim>\<open>g1\<close> and
  \<^verbatim>\<open>g1 ramp up\<close> the first \<^verbatim>\<open>madd\<close> would repeat a name and adds nothing, and the
  network has 4 generators afterwards, not 6.
\<close>

theorem generator_count_tripled_counterexample:
  "length (generators (ex_network
       [ex_gen ''g1'' (Fin 100) (Fin 0), ex_gen ''g1 ramp up'' (Fin 100) (Fin 0)] [])) = 2
   \<and> length (generators (redispatch_generators
       (ex_network [ex_gen ''g1'' (Fin 100) (Fin 0), ex_gen ''g1 ramp up'' (Fin 100) (Fin 0)] [])
       (ex_network [ex_gen ''g1'' (Fin 100) (Fin 0), ex_gen ''g1 ramp up'' (Fin 100) (Fin 0)]
          [(''g1'', \<lambda>t. Fin 40), (''g1 ramp up'', \<lambda>t. Fin 40)]))) = 4"
  by (simp add: split_defs)

text \<open>
  Claim C1. After the splitting both bounds of an original generator are the realized
  ratio \<open>market.p[g,t] / market.p_nom[g]\<close> with NaN replaced by 0 (lemma
  \<open>original_bounds\<close>). The ratio is claimed to be 0 whenever \<open>p_nom[g] = 0\<close>. For an
  extendable generator of nominal capacity 0 that the market dispatches at 5, the
  division gives \<open>+inf\<close>, which \<^verbatim>\<open>fillna(0)\<close> leaves: both bounds of the generator are
  infinite, not 0.
\<close>

theorem realized_ratio_zero_capacity:
  "p_nom (ex_gen ''g1'' (Fin 0) (Fin 0)) = Fin 0
   \<and> at_frame (dense_p_min_pu (redispatch_generators
       (ex_network [ex_gen ''g1'' (Fin 0) (Fin 0)] [])
       (ex_network [ex_gen ''g1'' (Fin 0) (Fin 0)] [(''g1'', \<lambda>t. Fin 5)])))
     ''g1'' 0 = PInf
   \<and> at_frame (dense_p_max_pu (redispatch_generators
       (ex_network [ex_gen ''g1'' (Fin 0) (Fin 0)] [])
       (ex_network [ex_gen ''g1'' (Fin 0) (Fin 0)] [(''g1'', \<lambda>t. Fin 5)])))
     ''g1'' 0 = PInf"
  by (simp add: split_defs)

section \<open>The aggregation into bidding zones\<close>

lemma internal_rewrite_branch:
  "\<not> (map_zones z (bus0 b) = None \<and> map_zones z (bus1 b) = None) \<Longrightarrow>
   internal (rewrite_branch z b) = same_zone z b"
  by (auto simp: internal_def rewrite_branch_def same_zone_def split: option.splits)

lemma unequal_rewrite_branch:
  "\<not> same_zone z b \<Longrightarrow> bus0 (rewrite_branch z b) \<noteq> bus1 (rewrite_branch z b)"
  by (simp add: rewrite_branch_def same_zone_def)

lemma branch_name_rewrite_branch: "branch_name (rewrite_branch z b) = branch_name b"
  by (simp add: rewrite_branch_def)

lemma mremove_selected:
  assumes "distinct (map nm xs)"
  shows "mremove nm (map nm (filter P xs)) xs = filter (\<lambda>c. \<not> P c) xs"
proof -
  have inj: "inj_on nm (set xs)"
    using assms by (simp add: distinct_map)
  have "\<And>c. c \<in> set xs \<Longrightarrow> (nm c \<notin> set (map nm (filter P xs))) = (\<not> P c)"
    using inj by (auto simp: inj_on_def)
  then show ?thesis
    unfolding mremove_def by (intro filter_cong) simp_all
qed

lemma aggregate_branches_filter:
  assumes "distinct (map branch_name df)"
  shows "aggregate_branches z df = filter (\<lambda>b. \<not> internal b) (map (rewrite_branch z) df)"
proof -
  have "distinct (map branch_name (map (rewrite_branch z) df))"
    using assms by (simp add: o_def branch_name_rewrite_branch)
  then show ?thesis
    by (simp add: aggregate_branches_def Let_def mremove_selected)
qed

lemma length_filter_not: "length (filter (\<lambda>x. \<not> P x) xs) = length xs - length (filter P xs)"
  using sum_length_filter_compl[of P xs] by simp

lemma aggregate_branches_removes_internal:
  assumes "distinct (map branch_name df)" and "zoned z df"
  shows "removes_internal z df (aggregate_branches z df)"
proof -
  have "filter (\<lambda>b. \<not> internal (rewrite_branch z b)) df = filter (\<lambda>b. \<not> same_zone z b) df"
    using assms(2) by (intro filter_cong) (auto simp: zoned_def list_all_iff internal_rewrite_branch)
  then have a: "aggregate_branches z df
      = map (rewrite_branch z) (filter (\<lambda>b. \<not> same_zone z b) df)"
    by (simp add: aggregate_branches_filter[OF assms(1)] filter_map o_def)
  have l: "length (aggregate_branches z df) = length df - length (filter (same_zone z) df)"
    by (simp add: a length_filter_not)
  have i: "list_all (\<lambda>b. bus0 b \<noteq> bus1 b) (aggregate_branches z df)"
    by (simp add: a list_all_iff unequal_rewrite_branch)
  from a l i show ?thesis
    unfolding removes_internal_def by (intro conjI)
qed

lemma branches_bidding_zones:
  "lines (bidding_zones nm m) = aggregate_branches (zones nm) (lines m)"
  "links (bidding_zones nm m) = aggregate_branches (zones nm) (links m)"
  "transformers (bidding_zones nm m) = aggregate_branches (zones nm) (transformers m)"
  by (simp_all add: bidding_zones_def Let_def)

lemma map_of_zone_buses:
  assumes "list_all (\<lambda>b. country b = Some (bus_name b)) bs"
      and "x \<in> set (map bus_name bs)"
  shows "map_of (map (\<lambda>b. (bus_name b, country b)) bs) x = Some (Some x)"
  using assms by (induction bs) auto

lemma map_zones_known:
  assumes "zone_buses nm" and "known_bus nm r"
  shows "map_zones (zones nm) r = r"
  using assms
  by (auto simp: map_zones_def zones_def known_bus_def zone_buses_def map_of_zone_buses
      split: option.splits)

lemma rewrite_branch_known:
  assumes "zone_buses nm" and "known_bus nm (bus0 b)" and "known_bus nm (bus1 b)"
  shows "rewrite_branch (zones nm) b = b"
  using assms by (simp add: rewrite_branch_def map_zones_known)

lemma aggregate_branches_zone_network:
  assumes "zone_buses nm" and "wf_branches nm df"
  shows "aggregate_branches (zones nm) df = filter (\<lambda>b. \<not> internal b) df"
proof -
  have "map (rewrite_branch (zones nm)) df = df"
    using assms by (intro map_idI) (auto simp: wf_branches_def list_all_iff rewrite_branch_known)
  then show ?thesis
    using assms by (simp add: aggregate_branches_filter wf_branches_def)
qed

lemma unique_distinct: "distinct xs \<Longrightarrow> unique xs = xs"
  by (simp add: unique_def distinct_remdups_id)

lemma mremove_all: "mremove nm (map nm xs) xs = []"
  by (simp add: mremove_def)

lemma buses_bidding_zones:
  "buses (bidding_zones nm m) =
     import_components bus_name (mremove bus_name (map bus_name (buses m)) (buses m))
       (map (new_bus \<circ> zone_str) (unique (map snd (zones nm))))"
  by (simp add: bidding_zones_def Let_def)

lemma zone_buses_names:
  assumes "zone_buses nm"
  shows "map bus_name (buses (bidding_zones nm m)) = map bus_name (buses nm)"
proof -
  have c: "map snd (zones nm) = map (\<lambda>b. Some (bus_name b)) (buses nm)"
    using assms by (simp add: zones_def zone_buses_def list_all_iff)
  have d: "distinct (map (\<lambda>b. Some (bus_name b)) (buses nm))"
    using assms by (simp add: zone_buses_def distinct_map inj_on_def)
  have n: "map bus_name (map (new_bus \<circ> zone_str) (map (\<lambda>b. Some (bus_name b)) (buses nm)))
      = map bus_name (buses nm)"
    by (simp add: new_bus_def zone_str_def)
  have "distinct (map bus_name (buses nm))"
    using assms by (simp add: zone_buses_def)
  then show ?thesis
    by (simp add: buses_bidding_zones mremove_all c unique_distinct[OF d] import_components_def
        n del: map_map)
qed

lemma wf_branches_same_buses:
  "buses nm = buses m \<Longrightarrow> wf_branches m df \<Longrightarrow> wf_branches nm df"
  by (simp only: wf_branches_def known_bus_def)

text \<open>
  Claim C6, amended. For each of the branch tables (lines, links, transformers) with
  unique names in which every branch has at least one endpoint with a zone, the
  aggregation removes exactly the branches whose two endpoints are mapped to the same
  zone: the table afterwards is the rewritten rest, its length is the length before minus
  the number of such branches, and the two endpoints of every remaining branch differ.
\<close>

theorem aggregation_removes_internal_branches:
  assumes "distinct (map branch_name (lines m))"
      and "distinct (map branch_name (links m))"
      and "distinct (map branch_name (transformers m))"
      and "zoned (zones nm) (lines m)"
      and "zoned (zones nm) (links m)"
      and "zoned (zones nm) (transformers m)"
  shows "removes_internal (zones nm) (lines m) (lines (bidding_zones nm m))
       \<and> removes_internal (zones nm) (links m) (links (bidding_zones nm m))
       \<and> removes_internal (zones nm) (transformers m) (transformers (bidding_zones nm m))"
  using assms by (simp add: branches_bidding_zones aggregate_branches_removes_internal)

theorem aggregation_removes_internal_branches_witness:
  "lines (bidding_zones (ex_network [] []) (ex_network [] [])) =
     [\<lparr>branch_name = ''l23'', bus0 = Some ''DE'', bus1 = Some ''FR''\<rparr>]
   \<and> length (lines (bidding_zones (ex_network [] []) (ex_network [] []))) = 2 - 1
   \<and> list_all (\<lambda>b. bus0 b \<noteq> bus1 b) (lines (bidding_zones (ex_network [] []) (ex_network [] [])))
   \<and> links (bidding_zones (ex_network [] []) (ex_network [] [])) = []
   \<and> transformers (bidding_zones (ex_network [] []) (ex_network [] [])) = []"
proof -
  let ?n = "ex_network [] []"
  have d: "distinct (map branch_name (lines ?n))" "distinct (map branch_name (links ?n))"
    "distinct (map branch_name (transformers ?n))"
    by (simp_all add: ex_network_def)
  have z: "zoned (zones ?n) (lines ?n)" "zoned (zones ?n) (links ?n)"
    "zoned (zones ?n) (transformers ?n)"
    by (simp_all add: zoned_def map_zones_def zones_def ex_network_def)
  note th = aggregation_removes_internal_branches[OF d z]
  have f: "filter (\<lambda>b. \<not> same_zone (zones ?n) b) (lines ?n) =
      [\<lparr>branch_name = ''l23'', bus0 = Some ''b2'', bus1 = Some ''b3''\<rparr>]"
    by (simp add: same_zone_def map_zones_def zones_def ex_network_def)
  have r: "rewrite_branch (zones ?n) \<lparr>branch_name = ''l23'', bus0 = Some ''b2'', bus1 = Some ''b3''\<rparr>
      = \<lparr>branch_name = ''l23'', bus0 = Some ''DE'', bus1 = Some ''FR''\<rparr>"
    by (simp add: rewrite_branch_def map_zones_def zones_def ex_network_def)
  have s: "length (filter (same_zone (zones ?n)) (lines ?n)) = 1" "length (lines ?n) = 2"
    by (simp_all add: same_zone_def map_zones_def zones_def ex_network_def)
  have e: "links ?n = []" "transformers ?n = []"
    by (simp_all add: ex_network_def)
  from th show ?thesis
    unfolding removes_internal_def by (simp add: f r s e)
qed

text \<open>
  Not every branch with both endpoints in one zone is removed: a line from a bus without
  a zone to itself is kept, with both endpoints undefined. The table has one line before
  and after, and the line that is kept has equal endpoints.
\<close>

theorem aggregation_removes_internal_branches_counterexample:
  "lines ex_unmapped_loop = [\<lparr>branch_name = ''l33'', bus0 = Some ''b3'', bus1 = Some ''b3''\<rparr>]
   \<and> same_zone (zones ex_unmapped_loop)
       \<lparr>branch_name = ''l33'', bus0 = Some ''b3'', bus1 = Some ''b3''\<rparr>
   \<and> lines (bidding_zones ex_unmapped_loop ex_unmapped_loop) =
       [\<lparr>branch_name = ''l33'', bus0 = None, bus1 = None\<rparr>]
   \<and> length (lines (bidding_zones ex_unmapped_loop ex_unmapped_loop)) = 1
   \<and> length (lines ex_unmapped_loop)
       - length (filter (same_zone (zones ex_unmapped_loop)) (lines ex_unmapped_loop)) = 0"
proof -
  have a: "lines ex_unmapped_loop
      = [\<lparr>branch_name = ''l33'', bus0 = Some ''b3'', bus1 = Some ''b3''\<rparr>]"
    by (simp add: ex_unmapped_loop_def)
  have b: "same_zone (zones ex_unmapped_loop)
      \<lparr>branch_name = ''l33'', bus0 = Some ''b3'', bus1 = Some ''b3''\<rparr>"
    by (simp add: same_zone_def)
  have c: "lines (bidding_zones ex_unmapped_loop ex_unmapped_loop) =
       [\<lparr>branch_name = ''l33'', bus0 = None, bus1 = None\<rparr>]"
    by code_simp
  from a b c show ?thesis by simp
qed

text \<open>
  Claim C7. For a network whose buses are zones already (every bus is its own zone) and
  whose branches join buses of the network, the aggregation yields the same bus names
  and, in every branch table, the branches of the input that are not internal.
\<close>

theorem aggregation_idempotent_on_zones:
  assumes "zone_buses m"
      and "buses nm = buses m"
      and "wf_branches m (lines m)"
      and "wf_branches m (links m)"
      and "wf_branches m (transformers m)"
  shows "map bus_name (buses (bidding_zones nm m)) = map bus_name (buses m)
       \<and> lines (bidding_zones nm m) = filter (\<lambda>b. \<not> internal b) (lines m)
       \<and> links (bidding_zones nm m) = filter (\<lambda>b. \<not> internal b) (links m)
       \<and> transformers (bidding_zones nm m) = filter (\<lambda>b. \<not> internal b) (transformers m)"
proof -
  have z: "zone_buses nm"
    using assms(1,2) by (simp add: zone_buses_def)
  note w = wf_branches_same_buses[OF assms(2)]
  show ?thesis
    using zone_buses_names[OF z, of m]
    by (simp add: assms(2) branches_bidding_zones aggregate_branches_zone_network[OF z]
        w[OF assms(3)] w[OF assms(4)] w[OF assms(5)])
qed

theorem aggregation_idempotent_on_zones_witness:
  "map bus_name (buses (bidding_zones ex_zone_network ex_zone_network)) = [''DE'', ''FR'']
   \<and> lines (bidding_zones ex_zone_network ex_zone_network) =
       [\<lparr>branch_name = ''l1'', bus0 = Some ''DE'', bus1 = Some ''FR''\<rparr>]
   \<and> links (bidding_zones ex_zone_network ex_zone_network) = []
   \<and> transformers (bidding_zones ex_zone_network ex_zone_network) = []"
proof -
  have z: "zone_buses ex_zone_network"
    by (simp add: zone_buses_def ex_zone_network_def ex_network_def)
  have w: "wf_branches ex_zone_network (lines ex_zone_network)"
    "wf_branches ex_zone_network (links ex_zone_network)"
    "wf_branches ex_zone_network (transformers ex_zone_network)"
    by (simp_all add: wf_branches_def known_bus_def ex_zone_network_def ex_network_def)
  note th = aggregation_idempotent_on_zones[OF z refl w]
  from th show ?thesis
    by (simp add: ex_zone_network_def ex_network_def internal_def)
qed

section \<open>The pipeline\<close>

lemma init_state_simps:
  "model (init_state m sv settings) = m"
  "solver (init_state m sv settings) = sv"
  "solver_settings (init_state m sv settings) = options_of sv settings"
  "network_model (init_state m sv settings) = None"
  "market_model (init_state m sv settings) = None"
  "redispatch_model (init_state m sv settings) = None"
  "trace (init_state m sv settings) = []"
  by (simp_all add: init_state_def set_solver_def options_of_def Let_def)

lemma optimize_cases:
  "optimize solve st n s =
     (case solve (solver s) (solver_settings s) n of
        Raises e \<Rightarrow>
          Inl (e, s\<lparr>trace := trace s @ [Optimize st (solver s) (solver_settings s) (Raised e)]\<rparr>)
      | Returns status cond n' \<Rightarrow>
          Inr (n', s\<lparr>trace := trace s
                     @ [Optimize st (solver s) (solver_settings s) (Returned status cond)]\<rparr>))"
  by (simp add: optimize_def)

lemma run_network_model_result:
  "run_network_model solve s =
     (case solve (solver s) (solver_settings s) (model s) of
        Raises e \<Rightarrow>
          Inl (e, s\<lparr>network_model := Some (model s),
                     trace := trace s @ stage_trace NetworkModel (solver s) (solver_settings s)
                                (Raises e)\<rparr>)
      | Returns status cond n \<Rightarrow>
          Inr (s\<lparr>network_model := Some n,
                 trace := trace s @ stage_trace NetworkModel (solver s) (solver_settings s)
                            (Returns status cond n)\<rparr>))"
  by (simp add: run_network_model_def optimize_def export_model_results_def stage_trace_def
      split: solved.splits)

lemma run_market_model_result:
  assumes "network_model s = Some nm"
  shows "run_market_model solve s =
     (case solve (solver s) (solver_settings s) (bidding_zones nm (model s)) of
        Raises e \<Rightarrow>
          Inl (e, s\<lparr>market_model := Some (bidding_zones nm (model s)),
                     trace := trace s @ stage_trace MarketModel (solver s) (solver_settings s)
                                (Raises e)\<rparr>)
      | Returns status cond n \<Rightarrow>
          Inr (s\<lparr>market_model := Some n,
                 trace := trace s @ stage_trace MarketModel (solver s) (solver_settings s)
                            (Returns status cond n)\<rparr>))"
  using assms
  by (simp add: run_market_model_def optimize_def export_model_results_def stage_trace_def Let_def
      split: solved.splits)

lemma run_redispatch_model_result:
  assumes "network_model s = Some nm" and "market_model s = Some mm"
  shows "run_redispatch_model solve s =
     (case solve (solver s) (solver_settings s) (redispatch_generators (model s) mm) of
        Raises e \<Rightarrow>
          Inl (e, s\<lparr>redispatch_model := Some (redispatch_generators (model s) mm),
                     trace := trace s @ stage_trace RedispatchModel (solver s) (solver_settings s)
                                (Raises e)\<rparr>)
      | Returns status cond n \<Rightarrow>
          Inr (s\<lparr>redispatch_model := Some n,
                 trace := trace s @ stage_trace RedispatchModel (solver s) (solver_settings s)
                            (Returns status cond n)\<rparr>))"
  using assms
  by (simp add: run_redispatch_model_def optimize_def export_model_results_def stage_trace_def
      Let_def split: solved.splits)

lemma init_eq:
  "init solve m sv settings =
     (case run_network_model solve (init_state m sv settings) of
        Inl x \<Rightarrow> Inl x
      | Inr s1 \<Rightarrow>
          (case run_market_model solve s1 of
             Inl x \<Rightarrow> Inl x
           | Inr s2 \<Rightarrow> run_redispatch_model solve s2))"
  by (simp add: init_def init_state_def Let_def)

lemma init_network_raises:
  assumes "solve sv (options_of sv settings) m = Raises e"
  shows "raised (init solve m sv settings) = Some e"
    and "trace (final (init solve m sv settings)) =
           [Optimize NetworkModel sv (options_of sv settings) (Raised e)]"
    and "market_model (final (init solve m sv settings)) = None"
    and "redispatch_model (final (init solve m sv settings)) = None"
  using assms
  by (simp_all add: init_eq run_network_model_result init_state_simps stage_trace_def
      raised_def final_def)

lemma init_market_raises:
  assumes "solve sv (options_of sv settings) m = Returns a b nm"
      and "solve sv (options_of sv settings) (bidding_zones nm m) = Raises e"
  shows "raised (init solve m sv settings) = Some e"
    and "trace (final (init solve m sv settings)) =
           [Optimize NetworkModel sv (options_of sv settings) (Returned a b),
            Export NetworkModel,
            Optimize MarketModel sv (options_of sv settings) (Raised e)]"
    and "redispatch_model (final (init solve m sv settings)) = None"
  using assms
  by (simp_all add: init_eq run_network_model_result run_market_model_result init_state_simps
      stage_trace_def raised_def final_def)

lemma init_redispatch_raises:
  assumes "solve sv (options_of sv settings) m = Returns a b nm"
      and "solve sv (options_of sv settings) (bidding_zones nm m) = Returns a' b' mm"
      and "solve sv (options_of sv settings) (redispatch_generators m mm) = Raises e"
  shows "raised (init solve m sv settings) = Some e"
    and "trace (final (init solve m sv settings)) =
           [Optimize NetworkModel sv (options_of sv settings) (Returned a b),
            Export NetworkModel,
            Optimize MarketModel sv (options_of sv settings) (Returned a' b'),
            Export MarketModel,
            Optimize RedispatchModel sv (options_of sv settings) (Raised e)]"
  using assms
  by (simp_all add: init_eq run_network_model_result run_market_model_result
      run_redispatch_model_result init_state_simps stage_trace_def raised_def final_def)

lemma init_returns:
  assumes "solve sv (options_of sv settings) m = Returns a b nm"
      and "solve sv (options_of sv settings) (bidding_zones nm m) = Returns a' b' mm"
      and "solve sv (options_of sv settings) (redispatch_generators m mm) = Returns a'' b'' rm"
  shows "raised (init solve m sv settings) = None"
    and "trace (final (init solve m sv settings)) =
           [Optimize NetworkModel sv (options_of sv settings) (Returned a b),
            Export NetworkModel,
            Optimize MarketModel sv (options_of sv settings) (Returned a' b'),
            Export MarketModel,
            Optimize RedispatchModel sv (options_of sv settings) (Returned a'' b''),
            Export RedispatchModel]"
    and "redispatch_model (final (init solve m sv settings)) = Some rm"
  using assms
  by (simp_all add: init_eq run_network_model_result run_market_model_result
      run_redispatch_model_result init_state_simps stage_trace_def raised_def final_def)

lemma init_courses:
  obtains (network_raises) e where "solve sv (options_of sv settings) m = Raises e"
  | (market_raises) a b nm e where "solve sv (options_of sv settings) m = Returns a b nm"
      "solve sv (options_of sv settings) (bidding_zones nm m) = Raises e"
  | (redispatch_raises) a b nm a' b' mm e where
      "solve sv (options_of sv settings) m = Returns a b nm"
      "solve sv (options_of sv settings) (bidding_zones nm m) = Returns a' b' mm"
      "solve sv (options_of sv settings) (redispatch_generators m mm) = Raises e"
  | (returns) a b nm a' b' mm a'' b'' rm where
      "solve sv (options_of sv settings) m = Returns a b nm"
      "solve sv (options_of sv settings) (bidding_zones nm m) = Returns a' b' mm"
      "solve sv (options_of sv settings) (redispatch_generators m mm) = Returns a'' b'' rm"
proof (cases "solve sv (options_of sv settings) m")
  case (Raises e)
  then show ?thesis by (rule network_raises)
next
  case r1: (Returns a b nm)
  show ?thesis
  proof (cases "solve sv (options_of sv settings) (bidding_zones nm m)")
    case (Raises e)
    with r1 show ?thesis by (rule market_raises)
  next
    case r2: (Returns a' b' mm)
    show ?thesis
    proof (cases "solve sv (options_of sv settings) (redispatch_generators m mm)")
      case (Raises e)
      with r1 r2 show ?thesis by (rule redispatch_raises)
    next
      case (Returns a'' b'' rm)
      with r1 r2 show ?thesis by (rule returns)
    qed
  qed
qed

lemmas stage_defs = init_def set_solver_def run_network_model_def run_market_model_def
  run_redispatch_model_def optimize_def export_model_results_def final_def raised_def
  Let_def

lemma ex_zonal_buses:
  "length (buses (bidding_zones (ex_network gens p) (ex_network gens p))) = 2"
  by (simp add: bidding_zones_def Let_def ex_network_def zones_def unique_def mremove_def
      import_components_def new_bus_def zone_str_def)

lemma ex_nodal_buses:
  "length (buses (ex_network gens p)) = 3"
  "length (buses (redispatch_generators (ex_network gens p) mk)) = 3"
  by (simp_all add: redispatch_generators_def Let_def ex_network_def)

lemma map_of_bus_country:
  "distinct (map bus_name bs) \<Longrightarrow> b \<in> set bs \<Longrightarrow>
   map_of (map (\<lambda>b. (bus_name b, country b)) bs) (bus_name b) = Some (country b)"
  by (induction bs) (auto simp: image_iff)

lemma map_zones_unset:
  assumes "distinct (map bus_name (buses nm))" and "b \<in> set (buses nm)" and "country b = None"
  shows "map_zones (zones nm) (Some (bus_name b)) = None"
  using map_of_bus_country[OF assms(1,2)] assms(3)
  by (simp add: map_zones_def zones_def)

lemma refs_undefined_map:
  "map_zones z (Some k) = None \<Longrightarrow> refs_undefined k xs (map (map_zones z) xs)"
  by (simp add: refs_undefined_def list_all2_map2 list_all2_same)

lemma refs_bidding_zones:
  "map gen_bus (generators (bidding_zones nm m)) = map (map_zones (zones nm)) (map gen_bus (generators m))"
  "map op_bus (loads (bidding_zones nm m)) = map (map_zones (zones nm)) (map op_bus (loads m))"
  "map op_bus (storage_units (bidding_zones nm m))
     = map (map_zones (zones nm)) (map op_bus (storage_units m))"
  "map op_bus (stores (bidding_zones nm m)) = map (map_zones (zones nm)) (map op_bus (stores m))"
  "map op_bus (shunt_impedances (bidding_zones nm m))
     = map (map_zones (zones nm)) (map op_bus (shunt_impedances m))"
  by (simp_all add: bidding_zones_def Let_def aggregate_one_ports_def o_def)

lemma keeps_undefined_aggregate:
  assumes "distinct (map branch_name df)" and "map_zones z (Some k) = None"
  shows "keeps_undefined k df (aggregate_branches z df)"
proof -
  have "list_ex (\<lambda>l'. branch_name l' = branch_name l \<and>
                       (bus0 l = Some k \<longrightarrow> bus0 l' = None) \<and>
                       (bus1 l = Some k \<longrightarrow> bus1 l' = None)) (aggregate_branches z df)"
    if l: "l \<in> set df" and e: "bus0 l = Some k \<or> bus1 l = Some k" for l
  proof -
    have n: "\<not> internal (rewrite_branch z l)"
      using e assms(2) by (auto simp: internal_def rewrite_branch_def split: option.splits)
    have m: "rewrite_branch z l \<in> set (aggregate_branches z df)"
      using l n by (simp add: aggregate_branches_filter[OF assms(1)])
    have p: "branch_name (rewrite_branch z l) = branch_name l \<and>
             (bus0 l = Some k \<longrightarrow> bus0 (rewrite_branch z l) = None) \<and>
             (bus1 l = Some k \<longrightarrow> bus1 (rewrite_branch z l) = None)"
      using assms(2) by (simp add: rewrite_branch_def)
    from m p show ?thesis
      unfolding list_ex_iff by blast
  qed
  then show ?thesis
    unfolding keeps_undefined_def list_all_iff by blast
qed

lemma zone_str_inj_on:
  "Some ''nan'' \<notin> set cs \<Longrightarrow> inj_on zone_str (set cs)"
  by (auto simp: inj_on_def zone_str_def split: option.splits)

lemma set_unique: "set (unique xs) = set xs"
  by (simp add: unique_def)

lemma distinct_unique: "distinct (unique xs)"
  by (simp add: unique_def)

lemma nan_bus:
  assumes "b \<in> set (buses nm)" and "country b = None"
      and "Some ''nan'' \<notin> set (map country (buses nm))"
  shows "''nan'' \<in> set (map bus_name (buses (bidding_zones nm m)))"
proof -
  let ?cs = "map country (buses nm)"
  have cs: "map snd (zones nm) = ?cs"
    by (simp add: zones_def o_def)
  have d: "distinct (map bus_name (map (new_bus \<circ> zone_str) (unique ?cs)))"
    using zone_str_inj_on[OF assms(3)]
    by (simp add: o_def new_bus_def distinct_map distinct_unique set_unique)
  have bs: "buses (bidding_zones nm m) = map (new_bus \<circ> zone_str) (unique ?cs)"
    using d by (simp add: buses_bidding_zones mremove_all import_components_def cs)
  have "None \<in> set (unique ?cs)"
    using assms(1,2) by (force simp: set_unique)
  then have "zone_str None \<in> zone_str ` set (unique ?cs)"
    by (rule imageI)
  then show ?thesis
    by (simp add: bs o_def new_bus_def zone_str_def)
qed

text \<open>
  Claim C10. Every call of \<^verbatim>\<open>optimize\<close> in the three stages is given the solver name of
  the constructor and the same options: the hard-coded, non-empty mapping when the
  solver is \<^verbatim>\<open>gurobi\<close> and the settings are \<^verbatim>\<open>"default"\<close>, the empty mapping for
  every other solver and for every other settings value, whatever it holds.
\<close>

theorem solver_options_passed:
  "(\<forall>ev \<in> set (trace (final (init solve m sv settings))). \<forall>st sn so out.
      ev = Optimize st sn so out \<longrightarrow>
        sn = sv \<and>
        so = (if sv = ''gurobi'' \<and> settings = PyStr ''default'' then gurobi_default else []))
   \<and> (\<exists>out. hd (trace (final (init solve m sv settings))) =
         Optimize NetworkModel sv
           (if sv = ''gurobi'' \<and> settings = PyStr ''default'' then gurobi_default else []) out)
   \<and> gurobi_default \<noteq> []"
proof -
  let ?tr = "trace (final (init solve m sv settings))"
  have main: "(\<forall>ev \<in> set ?tr. \<forall>st sn so out.
      ev = Optimize st sn so out \<longrightarrow> sn = sv \<and> so = options_of sv settings)
   \<and> (\<exists>out. hd ?tr = Optimize NetworkModel sv (options_of sv settings) out)"
  proof (cases rule: init_courses[of solve sv settings m])
    case network_raises
    then show ?thesis by (simp add: init_network_raises)
  next
    case market_raises
    then show ?thesis by (simp add: init_market_raises)
  next
    case redispatch_raises
    then show ?thesis by (simp add: init_redispatch_raises)
  next
    case returns
    then show ?thesis by (simp add: init_returns)
  qed
  have g: "gurobi_default \<noteq> []"
    by (simp add: gurobi_default_def)
  from main g show ?thesis
    unfolding options_of_def by blast
qed

theorem solver_options_passed_witness:
  "Optimize MarketModel ''glpk'' [] (Returned ''ok'' ''optimal'')
     \<in> set (trace (final (init (ex_solver ''ok'' ''optimal'')
         (ex_network [ex_gen ''g1'' (Fin 100) (Fin 0)] []) ''glpk''
         (PyDict [(''Threads'', OInt 2)]))))
   \<and> ([] :: options) =
       (if ''glpk'' = ''gurobi'' \<and> PyDict [(''Threads'', OInt 2)] = PyStr ''default''
        then gurobi_default else [])"
proof -
  let ?r = "init (ex_solver ''ok'' ''optimal'')
         (ex_network [ex_gen ''g1'' (Fin 100) (Fin 0)] []) ''glpk''
         (PyDict [(''Threads'', OInt 2)])"
  have mem: "Optimize MarketModel ''glpk'' [] (Returned ''ok'' ''optimal'')
      \<in> set (trace (final ?r))"
    by (simp add: stage_defs ex_solver_def)
  note th = solver_options_passed[of "ex_solver ''ok'' ''optimal''"
      "ex_network [ex_gen ''g1'' (Fin 100) (Fin 0)] []" "''glpk''" "PyDict [(''Threads'', OInt 2)]"]
  from th[THEN conjunct1, THEN bspec, OF mem] mem
  show ?thesis by blast
qed

text \<open>
  Claim C9, amended. A stage exports only after its call of \<^verbatim>\<open>optimize\<close> has returned
  (the status it returns is not looked at), and a solve that raises ends the pipeline
  with that exception: it is the last call. In particular, when the solve of the market
  model raises, the redispatch network is never built, and neither the market model nor
  the redispatch model is exported or solved.
\<close>

theorem export_only_after_solve_returns:
  "(\<forall>i st. i < length (trace (final (init solve m sv settings)))
        \<and> trace (final (init solve m sv settings)) ! i = Export st
      \<longrightarrow> 0 < i \<and> (\<exists>so status cond.
            trace (final (init solve m sv settings)) ! (i - 1)
              = Optimize st sv so (Returned status cond)))
   \<and> (\<forall>i st sn so e. i < length (trace (final (init solve m sv settings)))
        \<and> trace (final (init solve m sv settings)) ! i = Optimize st sn so (Raised e)
      \<longrightarrow> Suc i = length (trace (final (init solve m sv settings)))
          \<and> raised (init solve m sv settings) = Some e)
   \<and> (\<forall>sn so e. Optimize MarketModel sn so (Raised e)
          \<in> set (trace (final (init solve m sv settings)))
      \<longrightarrow> raised (init solve m sv settings) = Some e
          \<and> redispatch_model (final (init solve m sv settings)) = None
          \<and> Export MarketModel \<notin> set (trace (final (init solve m sv settings)))
          \<and> Export RedispatchModel \<notin> set (trace (final (init solve m sv settings)))
          \<and> (\<forall>sn' so' out. Optimize RedispatchModel sn' so' out
                \<notin> set (trace (final (init solve m sv settings)))))"
proof (cases rule: init_courses[of solve sv settings m])
  case network_raises
  then show ?thesis
    by (auto simp: init_network_raises nth_Cons split: nat.splits)
next
  case market_raises
  then show ?thesis
    by (auto simp: init_market_raises nth_Cons split: nat.splits)
next
  case redispatch_raises
  then show ?thesis
    by (auto simp: init_redispatch_raises nth_Cons split: nat.splits)
next
  case returns
  then show ?thesis
    by (auto simp: init_returns nth_Cons split: nat.splits)
qed

theorem export_only_after_solve_returns_witness:
  "trace (final (init ex_solver_zonal_raises
       (ex_network [ex_gen ''g1'' (Fin 100) (Fin 0)] []) ''gurobi'' (PyStr ''default''))) =
     [Optimize NetworkModel ''gurobi'' gurobi_default (Returned ''ok'' ''optimal''),
      Export NetworkModel,
      Optimize MarketModel ''gurobi'' gurobi_default (Raised SolverInfeasible)]
   \<and> raised (init ex_solver_zonal_raises
       (ex_network [ex_gen ''g1'' (Fin 100) (Fin 0)] []) ''gurobi'' (PyStr ''default''))
       = Some SolverInfeasible
   \<and> redispatch_model (final (init ex_solver_zonal_raises
       (ex_network [ex_gen ''g1'' (Fin 100) (Fin 0)] []) ''gurobi'' (PyStr ''default''))) = None
   \<and> Export MarketModel \<notin> set (trace (final (init ex_solver_zonal_raises
       (ex_network [ex_gen ''g1'' (Fin 100) (Fin 0)] []) ''gurobi'' (PyStr ''default''))))
   \<and> Export RedispatchModel \<notin> set (trace (final (init ex_solver_zonal_raises
       (ex_network [ex_gen ''g1'' (Fin 100) (Fin 0)] []) ''gurobi'' (PyStr ''default''))))"
proof -
  let ?r = "init ex_solver_zonal_raises
       (ex_network [ex_gen ''g1'' (Fin 100) (Fin 0)] []) ''gurobi'' (PyStr ''default'')"
  have tr: "trace (final ?r) =
     [Optimize NetworkModel ''gurobi'' gurobi_default (Returned ''ok'' ''optimal''),
      Export NetworkModel,
      Optimize MarketModel ''gurobi'' gurobi_default (Raised SolverInfeasible)]"
    by (simp add: stage_defs ex_solver_zonal_raises_def ex_zonal_buses ex_nodal_buses)
  have mem: "Optimize MarketModel ''gurobi'' gurobi_default (Raised SolverInfeasible)
      \<in> set (trace (final ?r))"
    by (simp add: tr)
  note th = export_only_after_solve_returns[of ex_solver_zonal_raises
      "ex_network [ex_gen ''g1'' (Fin 100) (Fin 0)] []" "''gurobi''" "PyStr ''default''"]
  from th[THEN conjunct2, THEN conjunct2, THEN spec, THEN spec, THEN spec, THEN mp, OF mem] tr
  show ?thesis by simp
qed

text \<open>
  A solve that reports infeasibility by its status does not stop the pipeline: when the
  solve of the market model returns \<^verbatim>\<open>("warning", "infeasible")\<close>, the market model is
  exported, the redispatch network is built, solved and exported, and the constructor
  returns.
\<close>

theorem export_only_after_solve_returns_counterexample:
  "trace (final (init ex_solver_zonal_infeasible
       (ex_network [ex_gen ''g1'' (Fin 100) (Fin 0)] []) ''gurobi'' (PyStr ''default''))) =
     [Optimize NetworkModel ''gurobi'' gurobi_default (Returned ''ok'' ''optimal''),
      Export NetworkModel,
      Optimize MarketModel ''gurobi'' gurobi_default (Returned ''warning'' ''infeasible''),
      Export MarketModel,
      Optimize RedispatchModel ''gurobi'' gurobi_default (Returned ''ok'' ''optimal''),
      Export RedispatchModel]
   \<and> raised (init ex_solver_zonal_infeasible
       (ex_network [ex_gen ''g1'' (Fin 100) (Fin 0)] []) ''gurobi'' (PyStr ''default'')) = None
   \<and> redispatch_model (final (init ex_solver_zonal_infeasible
       (ex_network [ex_gen ''g1'' (Fin 100) (Fin 0)] []) ''gurobi'' (PyStr ''default''))) \<noteq> None"
  by (simp add: stage_defs ex_solver_zonal_infeasible_def ex_zonal_buses ex_nodal_buses)

text \<open>
  Claim C8, amended. A bus \<open>b\<close> whose country is undefined makes the aggregation raise
  nothing: \<^verbatim>\<open>run_market_model\<close> calls the solve of the market model on the aggregated
  network, raises exactly what this solve raises, and its trace is the trace of this
  solve and, when it returns, of the export. With unique bus names and unique branch
  names, in the aggregated network every generator, load, storage unit, store and shunt
  impedance that was on \<open>b\<close> has an undefined bus, every line, link and transformer with
  an endpoint at \<open>b\<close> is kept with this endpoint undefined, and, when no bus has the
  country \<^verbatim>\<open>nan\<close>, there is a bus named \<^verbatim>\<open>nan\<close>.
\<close>

theorem unmapped_bus_raises_nothing:
  assumes "network_model s = Some nm"
      and "distinct (map bus_name (buses nm))"
      and "b \<in> set (buses nm)"
      and "country b = None"
      and "distinct (map branch_name (lines (model s)))"
      and "distinct (map branch_name (links (model s)))"
      and "distinct (map branch_name (transformers (model s)))"
  shows "raised (run_market_model solve s) =
           (case solve (solver s) (solver_settings s) (bidding_zones nm (model s)) of
              Raises e \<Rightarrow> Some e
            | Returns status cond n \<Rightarrow> None)
       \<and> trace (final (run_market_model solve s)) =
           trace s @ stage_trace MarketModel (solver s) (solver_settings s)
                       (solve (solver s) (solver_settings s) (bidding_zones nm (model s)))
       \<and> refs_undefined (bus_name b) (map gen_bus (generators (model s)))
           (map gen_bus (generators (bidding_zones nm (model s))))
       \<and> refs_undefined (bus_name b) (map op_bus (loads (model s)))
           (map op_bus (loads (bidding_zones nm (model s))))
       \<and> refs_undefined (bus_name b) (map op_bus (storage_units (model s)))
           (map op_bus (storage_units (bidding_zones nm (model s))))
       \<and> refs_undefined (bus_name b) (map op_bus (stores (model s)))
           (map op_bus (stores (bidding_zones nm (model s))))
       \<and> refs_undefined (bus_name b) (map op_bus (shunt_impedances (model s)))
           (map op_bus (shunt_impedances (bidding_zones nm (model s))))
       \<and> keeps_undefined (bus_name b) (lines (model s)) (lines (bidding_zones nm (model s)))
       \<and> keeps_undefined (bus_name b) (links (model s)) (links (bidding_zones nm (model s)))
       \<and> keeps_undefined (bus_name b) (transformers (model s))
           (transformers (bidding_zones nm (model s)))
       \<and> (Some ''nan'' \<notin> set (map country (buses nm))
            \<longrightarrow> ''nan'' \<in> set (map bus_name (buses (bidding_zones nm (model s)))))"
proof -
  note u = map_zones_unset[OF assms(2,3,4)]
  have r: "raised (run_market_model solve s) =
           (case solve (solver s) (solver_settings s) (bidding_zones nm (model s)) of
              Raises e \<Rightarrow> Some e
            | Returns status cond n \<Rightarrow> None)"
    by (simp add: run_market_model_result[OF assms(1)] raised_def split: solved.splits)
  have t: "trace (final (run_market_model solve s)) =
           trace s @ stage_trace MarketModel (solver s) (solver_settings s)
                       (solve (solver s) (solver_settings s) (bidding_zones nm (model s)))"
    by (simp add: run_market_model_result[OF assms(1)] final_def split: solved.splits)
  note p = refs_undefined_map[OF u]
  have k: "keeps_undefined (bus_name b) (lines (model s)) (lines (bidding_zones nm (model s)))"
    "keeps_undefined (bus_name b) (links (model s)) (links (bidding_zones nm (model s)))"
    "keeps_undefined (bus_name b) (transformers (model s))
       (transformers (bidding_zones nm (model s)))"
    by (simp_all add: branches_bidding_zones keeps_undefined_aggregate[OF _ u] assms(5,6,7))
  have n: "Some ''nan'' \<notin> set (map country (buses nm))
            \<longrightarrow> ''nan'' \<in> set (map bus_name (buses (bidding_zones nm (model s))))"
    using nan_bus[OF assms(3,4)] by blast
  from r t k n show ?thesis
    unfolding refs_bidding_zones by (intro conjI p)
qed

theorem unmapped_bus_raises_nothing_witness:
  "raised (run_market_model (ex_solver ''ok'' ''optimal'') (ex_state ex_unmapped)) = None
   \<and> trace (final (run_market_model (ex_solver ''ok'' ''optimal'') (ex_state ex_unmapped))) =
       [Optimize NetworkModel ''gurobi'' gurobi_default (Returned ''ok'' ''optimal''),
        Export NetworkModel,
        Optimize MarketModel ''gurobi'' gurobi_default (Returned ''ok'' ''optimal''),
        Export MarketModel]
   \<and> refs_undefined ''b3'' [Some ''b2'', Some ''b3'']
       (map op_bus (loads (bidding_zones ex_unmapped ex_unmapped)))
   \<and> map op_bus (loads (bidding_zones ex_unmapped ex_unmapped)) = [Some ''DE'', None]
   \<and> keeps_undefined ''b3''
       [\<lparr>branch_name = ''l12'', bus0 = Some ''b1'', bus1 = Some ''b2''\<rparr>,
        \<lparr>branch_name = ''l23'', bus0 = Some ''b2'', bus1 = Some ''b3''\<rparr>]
       (lines (bidding_zones ex_unmapped ex_unmapped))
   \<and> ''nan'' \<in> set (map bus_name (buses (bidding_zones ex_unmapped ex_unmapped)))"
proof -
  have nm: "network_model (ex_state ex_unmapped) = Some ex_unmapped"
    by (simp add: ex_state_def)
  have d: "distinct (map bus_name (buses ex_unmapped))"
    by (simp add: ex_unmapped_def ex_network_def)
  have b: "\<lparr>bus_name = ''b3'', country = None\<rparr> \<in> set (buses ex_unmapped)"
    by (simp add: ex_unmapped_def ex_network_def)
  have c: "country \<lparr>bus_name = ''b3'', country = None\<rparr> = None"
    by simp
  have m: "model (ex_state ex_unmapped) = ex_unmapped"
    by (simp add: ex_state_def)
  have e: "distinct (map branch_name (lines (model (ex_state ex_unmapped))))"
    "distinct (map branch_name (links (model (ex_state ex_unmapped))))"
    "distinct (map branch_name (transformers (model (ex_state ex_unmapped))))"
    by (simp_all add: ex_state_def ex_unmapped_def ex_network_def)
  note th = unmapped_bus_raises_nothing[OF nm d b c e, of "ex_solver ''ok'' ''optimal''"]
  have n: "Some ''nan'' \<notin> set (map country (buses ex_unmapped))"
    by (simp add: ex_unmapped_def ex_network_def)
  have l: "map op_bus (loads ex_unmapped) = [Some ''b2'', Some ''b3'']"
    "lines ex_unmapped =
       [\<lparr>branch_name = ''l12'', bus0 = Some ''b1'', bus1 = Some ''b2''\<rparr>,
        \<lparr>branch_name = ''l23'', bus0 = Some ''b2'', bus1 = Some ''b3''\<rparr>]"
    by (simp_all add: ex_unmapped_def ex_network_def)
  have v: "map op_bus (loads (bidding_zones ex_unmapped ex_unmapped)) = [Some ''DE'', None]"
    by code_simp
  have s: "solver (ex_state ex_unmapped) = ''gurobi''"
    "solver_settings (ex_state ex_unmapped) = gurobi_default"
    "trace (ex_state ex_unmapped) =
       [Optimize NetworkModel ''gurobi'' gurobi_default (Returned ''ok'' ''optimal''),
        Export NetworkModel]"
    by (simp_all add: ex_state_def)
  from th n show ?thesis
    unfolding m l s by (simp add: ex_solver_def stage_trace_def v)
qed

text \<open>
  No \<^verbatim>\<open>UnmappedBusError\<close>, and the solve of the market model is attempted. With the
  country of bus \<^verbatim>\<open>b3\<close> unset and a solver that succeeds, the constructor returns: the
  market model was solved and exported, with a line that ends in an undefined bus and a
  bus named \<^verbatim>\<open>nan\<close>. With a solver that raises on such a line, the error that leaves
  the constructor is the one of the market solve, which is the last call of the trace.
\<close>

theorem unmapped_bus_raises_nothing_counterexample:
  "country (buses ex_unmapped ! 2) = None
   \<and> raised (init (ex_solver ''ok'' ''optimal'') ex_unmapped ''gurobi'' (PyStr ''default''))
       = None
   \<and> trace (final (init (ex_solver ''ok'' ''optimal'') ex_unmapped ''gurobi''
       (PyStr ''default''))) =
     [Optimize NetworkModel ''gurobi'' gurobi_default (Returned ''ok'' ''optimal''),
      Export NetworkModel,
      Optimize MarketModel ''gurobi'' gurobi_default (Returned ''ok'' ''optimal''),
      Export MarketModel,
      Optimize RedispatchModel ''gurobi'' gurobi_default (Returned ''ok'' ''optimal''),
      Export RedispatchModel]
   \<and> lines (bidding_zones ex_unmapped ex_unmapped) =
       [\<lparr>branch_name = ''l23'', bus0 = Some ''DE'', bus1 = None\<rparr>]
   \<and> map bus_name (buses (bidding_zones ex_unmapped ex_unmapped)) = [''DE'', ''nan'']
   \<and> raised (init ex_solver_refuses_undefined ex_unmapped ''gurobi'' (PyStr ''default''))
       = Some SolverError
   \<and> trace (final (init ex_solver_refuses_undefined ex_unmapped ''gurobi''
       (PyStr ''default''))) =
     [Optimize NetworkModel ''gurobi'' gurobi_default (Returned ''ok'' ''optimal''),
      Export NetworkModel,
      Optimize MarketModel ''gurobi'' gurobi_default (Raised SolverError)]"
proof -
  have a: "country (buses ex_unmapped ! 2) = None"
    by (simp add: ex_unmapped_def ex_network_def)
  have b: "raised (init (ex_solver ''ok'' ''optimal'') ex_unmapped ''gurobi'' (PyStr ''default''))
       = None"
    by (simp add: stage_defs ex_solver_def)
  have c: "trace (final (init (ex_solver ''ok'' ''optimal'') ex_unmapped ''gurobi''
       (PyStr ''default''))) =
     [Optimize NetworkModel ''gurobi'' gurobi_default (Returned ''ok'' ''optimal''),
      Export NetworkModel,
      Optimize MarketModel ''gurobi'' gurobi_default (Returned ''ok'' ''optimal''),
      Export MarketModel,
      Optimize RedispatchModel ''gurobi'' gurobi_default (Returned ''ok'' ''optimal''),
      Export RedispatchModel]"
    by (simp add: stage_defs ex_solver_def)
  have d: "lines (bidding_zones ex_unmapped ex_unmapped) =
       [\<lparr>branch_name = ''l23'', bus0 = Some ''DE'', bus1 = None\<rparr>]"
    by code_simp
  have e: "map bus_name (buses (bidding_zones ex_unmapped ex_unmapped)) = [''DE'', ''nan'']"
    by code_simp
  have f: "lines ex_unmapped =
       [\<lparr>branch_name = ''l12'', bus0 = Some ''b1'', bus1 = Some ''b2''\<rparr>,
        \<lparr>branch_name = ''l23'', bus0 = Some ''b2'', bus1 = Some ''b3''\<rparr>]"
    by (simp add: ex_unmapped_def ex_network_def)
  have g: "raised (init ex_solver_refuses_undefined ex_unmapped ''gurobi'' (PyStr ''default''))
       = Some SolverError"
    by (simp add: stage_defs ex_solver_refuses_undefined_def d f)
  have h: "trace (final (init ex_solver_refuses_undefined ex_unmapped ''gurobi''
       (PyStr ''default''))) =
     [Optimize NetworkModel ''gurobi'' gurobi_default (Returned ''ok'' ''optimal''),
      Export NetworkModel,
      Optimize MarketModel ''gurobi'' gurobi_default (Raised SolverError)]"
    by (simp add: stage_defs ex_solver_refuses_undefined_def d f)
  from a b c d e g h show ?thesis by simp
qed

end
